theory Spec2Isabelle
  imports Complex_Main
begin
section \<open>Numeric cells\<close>

text \<open>
  The statistics held in a table are pandas \<open>float64\<close>/\<open>int64\<close> cells. A cell is modelled as
  a real number or one of the three special values of IEEE arithmetic. Finite arithmetic
  is exact (no rounding, no overflow) and zero carries no sign; the special values follow
  the rules numpy applies to a Series: dividing by zero does not raise, it gives
  \<open>NaN\<close> for \<open>0/0\<close> and a signed infinity otherwise.
\<close>

datatype fl = Fin real | PInf | NInf | NaN

fun fneg :: "fl \<Rightarrow> fl" where
  "fneg (Fin a) = Fin (- a)"
| "fneg PInf = NInf"
| "fneg NInf = PInf"
| "fneg NaN = NaN"

fun fadd :: "fl \<Rightarrow> fl \<Rightarrow> fl" where
  "fadd NaN y = NaN"
| "fadd x NaN = NaN"
| "fadd (Fin a) (Fin b) = Fin (a + b)"
| "fadd PInf NInf = NaN"
| "fadd NInf PInf = NaN"
| "fadd PInf y = PInf"
| "fadd x PInf = PInf"
| "fadd NInf y = NInf"
| "fadd x NInf = NInf"

definition fsub :: "fl \<Rightarrow> fl \<Rightarrow> fl" where
  "fsub x y = fadd x (fneg y)"

fun fmul :: "fl \<Rightarrow> fl \<Rightarrow> fl" where
  "fmul NaN y = NaN"
| "fmul x NaN = NaN"
| "fmul (Fin a) (Fin b) = Fin (a * b)"
| "fmul PInf (Fin b) = (if b = 0 then NaN else if 0 < b then PInf else NInf)"
| "fmul NInf (Fin b) = (if b = 0 then NaN else if 0 < b then NInf else PInf)"
| "fmul (Fin a) PInf = (if a = 0 then NaN else if 0 < a then PInf else NInf)"
| "fmul (Fin a) NInf = (if a = 0 then NaN else if 0 < a then NInf else PInf)"
| "fmul PInf PInf = PInf"
| "fmul NInf NInf = PInf"
| "fmul PInf NInf = NInf"
| "fmul NInf PInf = NInf"

fun fdiv :: "fl \<Rightarrow> fl \<Rightarrow> fl" where
  "fdiv NaN y = NaN"
| "fdiv x NaN = NaN"
| "fdiv (Fin a) (Fin b) =
     (if b = 0 then (if a = 0 then NaN else if 0 < a then PInf else NInf)
      else Fin (a / b))"
| "fdiv (Fin a) PInf = Fin 0"
| "fdiv (Fin a) NInf = Fin 0"
| "fdiv PInf (Fin b) = (if b < 0 then NInf else PInf)"
| "fdiv NInf (Fin b) = (if b < 0 then PInf else NInf)"
| "fdiv PInf PInf = NaN"
| "fdiv PInf NInf = NaN"
| "fdiv NInf PInf = NaN"
| "fdiv NInf NInf = NaN"

section \<open>Tables of season totals\<close>

text \<open>
  A season-totals table (a pandas DataFrame, a CSV file) has the natural key \<open>year\<close> and
  named numeric columns. \<open>columns\<close> lists the names of the columns other than the key, in
  order; a row holds its key and its cells by column name. A cell that a row does not
  hold is \<open>NaN\<close>, as after \<open>pd.concat\<close> of tables with different columns.
\<close>

record row =
  year :: int
  vals :: "string \<rightharpoonup> fl"

record frame =
  columns :: "string list"
  rows :: "row list"

text \<open>The exceptions the program can meet, as values.\<close>

datatype error =
    KeyError string
  | TypeError
  | AttributeError
  | RequestException
  | JSONDecodeError
  | HTTPError nat

definition cellv :: "row \<Rightarrow> string \<Rightarrow> fl" where
  "cellv r c = (case vals r c of Some v \<Rightarrow> v | None \<Rightarrow> NaN)"

text \<open>\<open>pd.DataFrame()\<close>: no columns, no rows.\<close>

definition empty_frame :: frame where
  "empty_frame = \<lparr>columns = [], rows = []\<rparr>"

text \<open>\<open>df.empty\<close>: a table with a row has at least the key column.\<close>

definition df_empty :: "frame \<Rightarrow> bool" where
  "df_empty df = (rows df = [])"

text \<open>\<open>df[c]\<close> reads a column and raises \<open>KeyError\<close> when the table has no such column.\<close>

definition getcol :: "frame \<Rightarrow> string \<Rightarrow> error + fl list" where
  "getcol df c =
     (if c \<in> set (columns df) then Inr (map (\<lambda>r. cellv r c) (rows df))
      else Inl (KeyError c))"

text \<open>\<open>df[c] = series\<close> overwrites the column, or appends it after the last one.\<close>

definition setcol :: "frame \<Rightarrow> string \<Rightarrow> fl list \<Rightarrow> frame" where
  "setcol df c vs =
     \<lparr>columns = (if c \<in> set (columns df) then columns df else columns df @ [c]),
      rows = map2 (\<lambda>r v. r\<lparr>vals := (vals r)(c \<mapsto> v)\<rparr>) (rows df) vs\<rparr>"

text \<open>
  \<^verbatim>\<open>
  def add_derived_cols(df):
      fga = df["FG3A"] + df["FG2A"]
      df["FTA_Rate"] = df["FTA"] / fga
      df["TOV%"] = 100 * df["Turnovers"] / (
          fga + (0.44 * df["FTA"]) + df["Turnovers"] - df["OffRebounds"]
      )
      return df
  \<close>
  The column reads happen in the order of the source, so the first missing column is the
  one the \<open>KeyError\<close> names.
\<close>

definition add_derived_cols :: "frame \<Rightarrow> error + frame" where
  "add_derived_cols df =
     (case getcol df ''FG3A'' of Inl e \<Rightarrow> Inl e | Inr fg3a \<Rightarrow>
     (case getcol df ''FG2A'' of Inl e \<Rightarrow> Inl e | Inr fg2a \<Rightarrow>
      let fga = map2 fadd fg3a fg2a in
     (case getcol df ''FTA'' of Inl e \<Rightarrow> Inl e | Inr fta \<Rightarrow>
      let df1 = setcol df ''FTA_Rate'' (map2 fdiv fta fga) in
     (case getcol df1 ''Turnovers'' of Inl e \<Rightarrow> Inl e | Inr tov \<Rightarrow>
      let num = map (fmul (Fin 100)) tov in
     (case getcol df1 ''FTA'' of Inl e \<Rightarrow> Inl e | Inr fta1 \<Rightarrow>
      let d1 = map2 fadd fga (map (fmul (Fin 0.44)) fta1) in
     (case getcol df1 ''Turnovers'' of Inl e \<Rightarrow> Inl e | Inr tov1 \<Rightarrow>
      let d2 = map2 fadd d1 tov1 in
     (case getcol df1 ''OffRebounds'' of Inl e \<Rightarrow> Inl e | Inr oreb \<Rightarrow>
      let d3 = map2 fsub d2 oreb in
      Inr (setcol df1 ''TOV%'' (map2 fdiv num d3)))))))))"

text \<open>\<open>pd.concat([a, b], ignore_index=True)\<close>: the rows of \<open>a\<close> then those of \<open>b\<close>, over
  the columns of \<open>a\<close> followed by the columns only \<open>b\<close> has.\<close>

definition concat_frames :: "frame \<Rightarrow> frame \<Rightarrow> frame" where
  "concat_frames a b =
     \<lparr>columns = columns a @ filter (\<lambda>c. c \<notin> set (columns a)) (columns b),
      rows = rows a @ rows b\<rparr>"

text \<open>\<open>drop_duplicates(subset=["year"], keep="last")\<close>: a row stays when no later row has
  its key; the order of the rows that stay is kept.\<close>

fun drop_duplicates :: "row list \<Rightarrow> row list" where
  "drop_duplicates [] = []"
| "drop_duplicates (r # rs) =
     (if year r \<in> set (map year rs) then drop_duplicates rs else r # drop_duplicates rs)"

text \<open>\<open>sort_values("year")\<close>, ascending. It runs on distinct keys, where every sorting
  algorithm gives the same list; the model uses insertion sort.\<close>

definition sort_values :: "row list \<Rightarrow> row list" where
  "sort_values rs = sort_key year rs"

text \<open>
  The table store: a file system maps a path to the table its CSV file holds;
  \<open>to_csv\<close> then \<open>read_csv\<close> gives the table back.
  \<^verbatim>\<open>
  def update_csv(csv_path, new_data, year):
      if csv_path.exists():
          existing = pd.read_csv(csv_path)
          existing = existing[existing["year"] != year]
      else:
          existing = pd.DataFrame()
      combined = pd.concat([existing, new_data], ignore_index=True)
      combined = combined.drop_duplicates(subset=["year"], keep="last")
      combined = combined.sort_values("year").reset_index(drop=True)
      combined = add_derived_cols(combined)
      combined.to_csv(csv_path, index=False)
      return combined
  \<close>
  \<open>merge_rows\<close> is the in-memory part (up to \<open>add_derived_cols\<close>), \<open>update_csv\<close> adds the
  file: it returns the file system after the call and the table returned, or the
  exception raised, in which case nothing was written.
\<close>

type_synonym filesystem = "string \<rightharpoonup> frame"

definition merge_rows :: "frame option \<Rightarrow> frame \<Rightarrow> int \<Rightarrow> error + frame" where
  "merge_rows stored new_data y =
     (let existing = (case stored of
                        Some e \<Rightarrow> e\<lparr>rows := filter (\<lambda>r. year r \<noteq> y) (rows e)\<rparr>
                      | None \<Rightarrow> empty_frame);
          combined = concat_frames existing new_data;
          combined = combined\<lparr>rows := drop_duplicates (rows combined)\<rparr>;
          combined = combined\<lparr>rows := sort_values (rows combined)\<rparr>
      in add_derived_cols combined)"

definition update_csv :: "filesystem \<Rightarrow> string \<Rightarrow> frame \<Rightarrow> int \<Rightarrow> filesystem \<times> (error + frame)" where
  "update_csv fs csv_path new_data y =
     (case merge_rows (fs csv_path) new_data y of
        Inl e \<Rightarrow> (fs, Inl e)
      | Inr combined \<Rightarrow> (fs(csv_path \<mapsto> combined), Inr combined))"

text \<open>\<open>add_derived_cols(df)[c]\<close>, or the exception met on the way.\<close>

definition column_of :: "error + frame \<Rightarrow> string \<Rightarrow> error + fl list" where
  "column_of res c = (case res of Inl e \<Rightarrow> Inl e | Inr df \<Rightarrow> getcol df c)"

section \<open>Decimal strings\<close>

text \<open>Python's \<open>str\<close> of an integer, used in file names and in the season label.\<close>

definition digit_char :: "nat \<Rightarrow> char" where
  "digit_char d = ''0123456789'' ! d"

fun str_nat :: "nat \<Rightarrow> string" where
  "str_nat n = (if n < 10 then [digit_char n] else str_nat (n div 10) @ [digit_char (n mod 10)])"

declare str_nat.simps [simp del]

definition str_int :: "int \<Rightarrow> string" where
  "str_int i = (if i < 0 then CHR ''-'' # str_nat (nat (- i)) else str_nat (nat i))"

text \<open>\<^verbatim>\<open>season = f"{year - 1}-{str(year)[-2:]}"\<close>\<close>

definition season_label :: "int \<Rightarrow> string" where
  "season_label y = str_int (y - 1) @ ''-'' @ (let s = str_int y in drop (length s - 2) s)"

section \<open>The remote service and the world of a run\<close>

text \<open>
  A response body as the program reads it: not JSON at all, JSON that is not an object,
  or a JSON object with named fields. A field holds one row of statistics (an object of
  numbers, given by its items, whose keys are distinct), a list of such rows, or a scalar.
  \<open>NoResponse\<close> stands for \<open>requests.get\<close> raising (connection error, timeout).
\<close>

datatype field = Row "(string \<times> fl) list" | Table "(string \<times> fl) list list" | Scalar

datatype body = NotJson | NonObject | Object "(string \<times> field) list"

datatype response = NoResponse | Response nat body

datatype request = Get string "(string \<times> string) list"

text \<open>
  The world a run acts on: the files of the table store, the requests sent so far and the
  \<open>time.sleep\<close> calls made so far (oldest first). The remote service is a function from
  the number of a request (counted from 0 over the run) to its response.
\<close>

record 'f world =
  files :: "string \<rightharpoonup> 'f"
  sent :: "request list"
  slept :: "real list"

definition sleep :: "real \<Rightarrow> 'f world \<Rightarrow> 'f world" where
  "sleep d w = w\<lparr>slept := slept w @ [d]\<rparr>"

definition requests_get ::
  "(nat \<Rightarrow> response) \<Rightarrow> string \<Rightarrow> (string \<times> string) list \<Rightarrow> 'f world \<Rightarrow> 'f world \<times> response" where
  "requests_get net url params w = (w\<lparr>sent := sent w @ [Get url params]\<rparr>, net (length (sent w)))"

section \<open>Season totals: fetching and the run\<close>

text \<open>\<open>pd.DataFrame([row])\<close> after \<open>row["year"] = year\<close>: one row, keyed by the year, over
  the row's other fields.\<close>

definition totals_frame :: "int \<Rightarrow> (string \<times> fl) list \<Rightarrow> frame" where
  "totals_frame y kvs =
     (let kvs1 = filter (\<lambda>(c, v). c \<noteq> ''year'') kvs
      in \<lparr>columns = remdups (map fst kvs1), rows = [\<lparr>year = y, vals = map_of kvs1\<rparr>]\<rparr>)"

definition totals_url :: string where
  "totals_url = ''https://api.pbpstats.com/get-totals/nba''"

definition max_retries :: nat where
  "max_retries = 15"

definition totals_params :: "int \<Rightarrow> string \<Rightarrow> bool \<Rightarrow> (string \<times> string) list" where
  "totals_params y season_type leverage =
     [(''Season'', season_label y), (''SeasonType'', season_type), (''Type'', ''Team'')]
     @ (if leverage then [(''Leverage'', ''Medium,High,VeryHigh'')] else [])"

text \<open>
  The body of the \<open>try\<close> of \<open>fetch_totals\<close>; the status of the response is not looked at.
  \<^verbatim>\<open>
  time.sleep(2)
  resp = requests.get(url, params=params, headers=HEADERS, timeout=(10, 30))
  data = resp.json()
  row = data["single_row_table_data"]
  row["year"] = year
  return pd.DataFrame([row])
  \<close>
\<close>

definition totals_try ::
  "(nat \<Rightarrow> response) \<Rightarrow> int \<Rightarrow> (string \<times> string) list \<Rightarrow> 'f world \<Rightarrow> 'f world \<times> (error + frame)" where
  "totals_try net y params w =
     (let w1 = sleep 2 w;
          (w2, resp) = requests_get net totals_url params w1
      in (w2,
          (case resp of
             NoResponse \<Rightarrow> Inl RequestException
           | Response st b \<Rightarrow>
               (case b of
                  NotJson \<Rightarrow> Inl JSONDecodeError
                | NonObject \<Rightarrow> Inl TypeError
                | Object flds \<Rightarrow>
                    (case map_of flds ''single_row_table_data'' of
                       None \<Rightarrow> Inl (KeyError ''single_row_table_data'')
                     | Some (Row kvs) \<Rightarrow> Inr (totals_frame y kvs)
                     | Some (Table rs) \<Rightarrow> Inl TypeError
                     | Some Scalar \<Rightarrow> Inl TypeError)))))"

text \<open>
  \<^verbatim>\<open>
  for attempt in range(1, max_retries + 1):
      try: ...
      except Exception as e:
          if attempt < max_retries:
              time.sleep(2)
          else:
              return pd.DataFrame()
  \<close>
  The result is \<open>None\<close> where the Python function would fall off its end.
\<close>

function fetch_loop ::
  "(nat \<Rightarrow> response) \<Rightarrow> int \<Rightarrow> (string \<times> string) list \<Rightarrow> nat \<Rightarrow> 'f world \<Rightarrow> 'f world \<times> frame option" where
  "fetch_loop net y params attempt w =
     (if attempt < max_retries + 1 then
        (case totals_try net y params w of
           (w1, Inr df) \<Rightarrow> (w1, Some df)
         | (w1, Inl e) \<Rightarrow>
             if attempt < max_retries then fetch_loop net y params (attempt + 1) (sleep 2 w1)
             else (w1, Some empty_frame))
      else (w, None))"
  by pat_completeness auto
termination
  by (relation "measure (\<lambda>(net, y, params, attempt, w). max_retries + 1 - attempt)") auto

declare fetch_loop.simps [simp del]

definition fetch_totals ::
  "(nat \<Rightarrow> response) \<Rightarrow> int \<Rightarrow> string \<Rightarrow> bool \<Rightarrow> 'f world \<Rightarrow> 'f world \<times> frame option" where
  "fetch_totals net y season_type leverage w =
     fetch_loop net y (totals_params y season_type leverage) 1 w"

text \<open>
  One of the four blocks of \<open>main\<close>:
  \<^verbatim>\<open>
  rs_data = fetch_totals(year, "Regular Season", leverage=False)
  if not rs_data.empty:
      update_csv(DATA_DIR / "season_totals.csv", rs_data, year)
  \<close>
  The second component is the exception that leaves the block, if any.
\<close>

definition sync_totals ::
  "(nat \<Rightarrow> response) \<Rightarrow> int \<Rightarrow> string \<Rightarrow> bool \<Rightarrow> string \<Rightarrow> frame world \<Rightarrow> frame world \<times> error option" where
  "sync_totals net y season_type leverage csv_path w =
     (case fetch_totals net y season_type leverage w of
        (w1, None) \<Rightarrow> (w1, Some AttributeError)
      | (w1, Some data) \<Rightarrow>
          if \<not> df_empty data then
            (case update_csv (files w1) csv_path data y of
               (fs, Inl e) \<Rightarrow> (w1\<lparr>files := fs\<rparr>, Some e)
             | (fs, Inr combined) \<Rightarrow> (w1\<lparr>files := fs\<rparr>, None))
          else (w1, None))"

text \<open>\<open>main\<close> of the season-totals script, for a given year: the four blocks in order; an
  exception ends the run.\<close>

definition season_totals_main ::
  "(nat \<Rightarrow> response) \<Rightarrow> int \<Rightarrow> frame world \<Rightarrow> frame world \<times> error option" where
  "season_totals_main net y w =
     (case sync_totals net y ''Regular Season'' False ''data/season_totals.csv'' w of
        (w1, Some e) \<Rightarrow> (w1, Some e)
      | (w1, None) \<Rightarrow>
     (case sync_totals net y ''Playoffs'' False ''data/season_totals_playoffs.csv'' w1 of
        (w2, Some e) \<Rightarrow> (w2, Some e)
      | (w2, None) \<Rightarrow>
     (case sync_totals net y ''Regular Season'' True ''data/season_totals_leverage.csv'' w2 of
        (w3, Some e) \<Rightarrow> (w3, Some e)
      | (w3, None) \<Rightarrow>
        sync_totals net y ''Playoffs'' True ''data/season_totals_playoffs_leverage.csv'' w3)))"

section \<open>On-off tables: fetching, blocks and the run\<close>

text \<open>
  An on-off table holds the rows of one team and side. Besides statistics its cells hold
  the tags the program adds (an integer, a string, a boolean). These tables are written
  and never read back.
\<close>

datatype cell = Num fl | IntC int | StrC string | BoolC bool

record table =
  tcolumns :: "string list"
  trows :: "(string \<rightharpoonup> cell) list"

definition WOWY_URL :: string where
  "WOWY_URL = ''https://api.pbpstats.com/get-wowy-stats/nba''"

definition SLEEP_BETWEEN :: real where
  "SLEEP_BETWEEN = 1"

definition MAX_RETRIES :: nat where
  "MAX_RETRIES = 5"

definition RETRY_DELAY :: real where
  "RETRY_DELAY = 3"

definition wowy_params :: "int \<Rightarrow> string \<Rightarrow> bool \<Rightarrow> bool \<Rightarrow> (string \<times> string) list" where
  "wowy_params team_id season opp leverage =
     [(''TeamId'', str_int team_id), (''Season'', season), (''SeasonType'', ''Regular Season''),
      (''Type'', if opp then ''Opponent'' else ''Team'')]
     @ (if leverage then [(''Leverage'', ''Medium,High,VeryHigh'')] else [])"

text \<open>The elements of a list in the order of their first occurrence.\<close>

definition first_seen :: "'a list \<Rightarrow> 'a list" where
  "first_seen xs = rev (remdups (rev xs))"

text \<open>\<open>pd.DataFrame(combos, index=[0] * len(combos))\<close> for a list of rows: one table row
  for each, over the keys in the order they first appear.\<close>

definition table_of_rows :: "(string \<times> fl) list list \<Rightarrow> table" where
  "table_of_rows rs =
     \<lparr>tcolumns = first_seen (concat (map (map fst) rs)),
      trows = map (\<lambda>kvs. map_option Num \<circ> map_of kvs) rs\<rparr>"

text \<open>
  \<^verbatim>\<open>
  resp = requests.get(WOWY_URL, params=params, headers=HEADERS, timeout=REQUEST_TIMEOUT)
  resp.raise_for_status()
  data = resp.json()
  combos = data["multi_row_table_data"]
  df = pd.DataFrame(combos, index=[0] * len(combos))
  return df
  \<close>
  \<open>raise_for_status\<close> raises for the statuses 400 to 599. A field that holds a single row
  (a dict of \<open>n\<close> scalars) makes a table of \<open>n\<close> copies of the row; a scalar has no usable
  length.
\<close>

definition lineuppull ::
  "(nat \<Rightarrow> response) \<Rightarrow> int \<Rightarrow> string \<Rightarrow> bool \<Rightarrow> bool \<Rightarrow> 'f world \<Rightarrow> 'f world \<times> (error + table)" where
  "lineuppull net team_id season opp leverage w =
     (let (w1, resp) = requests_get net WOWY_URL (wowy_params team_id season opp leverage) w
      in (w1,
          (case resp of
             NoResponse \<Rightarrow> Inl RequestException
           | Response st b \<Rightarrow>
               if 400 \<le> st \<and> st < 600 then Inl (HTTPError st)
               else
               (case b of
                  NotJson \<Rightarrow> Inl JSONDecodeError
                | NonObject \<Rightarrow> Inl TypeError
                | Object flds \<Rightarrow>
                    (case map_of flds ''multi_row_table_data'' of
                       None \<Rightarrow> Inl (KeyError ''multi_row_table_data'')
                     | Some (Table rs) \<Rightarrow> Inr (table_of_rows rs)
                     | Some (Row kvs) \<Rightarrow>
                         Inr (table_of_rows (replicate (length (remdups (map fst kvs))) kvs))
                     | Some Scalar \<Rightarrow> Inl TypeError)))))"

text \<open>\<^verbatim>\<open>{team_id}[_vs][_leverage].csv\<close>\<close>

definition get_filename :: "int \<Rightarrow> bool \<Rightarrow> bool \<Rightarrow> string" where
  "get_filename team_id opp leverage =
     str_int team_id @ (if opp then ''_vs'' else []) @ (if leverage then ''_leverage'' else [])
     @ ''.csv''"

definition output_dir :: "int \<Rightarrow> string" where
  "output_dir y = ''output/data/'' @ str_int y"

text \<open>\<open>df[c] = v\<close> for a scalar \<open>v\<close>: every row gets the value.\<close>

definition set_scalar :: "table \<Rightarrow> string \<Rightarrow> cell \<Rightarrow> table" where
  "set_scalar df c v =
     \<lparr>tcolumns = (if c \<in> set (tcolumns df) then tcolumns df else tcolumns df @ [c]),
      trows = map (\<lambda>r. r(c \<mapsto> v)) (trows df)\<rparr>"

text \<open>
  \<^verbatim>\<open>
  df["team_id"] = team_id
  df["year"] = year
  df["season"] = season
  df["team_vs"] = opp
  if "Corner3FGM" not in df.columns:
      df["Corner3FGM"] = 0
  \<close>
\<close>

definition tag_table :: "table \<Rightarrow> int \<Rightarrow> int \<Rightarrow> string \<Rightarrow> bool \<Rightarrow> table" where
  "tag_table df0 team_id y season opp =
     (let df = set_scalar df0 ''team_id'' (IntC team_id);
          df = set_scalar df ''year'' (IntC y);
          df = set_scalar df ''season'' (StrC season);
          df = set_scalar df ''team_vs'' (BoolC opp)
      in if ''Corner3FGM'' \<notin> set (tcolumns df) then set_scalar df ''Corner3FGM'' (IntC 0) else df)"

text \<open>
  The retry loop of one unit. It returns the world, the final value of \<open>attempts\<close> and the
  table fetched, if any (\<open>success\<close>).
  \<^verbatim>\<open>
  attempts = 0
  success = False
  while attempts < MAX_RETRIES and not success:
      try:
          df = lineuppull(team_id, season, opp=opp, leverage=leverage)
          success = True
      except Exception as e:
          attempts += 1
          if attempts < MAX_RETRIES:
              time.sleep(RETRY_DELAY)
  \<close>
\<close>

function retry_loop ::
  "(nat \<Rightarrow> response) \<Rightarrow> int \<Rightarrow> string \<Rightarrow> bool \<Rightarrow> bool \<Rightarrow> nat \<Rightarrow> 'f world
     \<Rightarrow> 'f world \<times> nat \<times> table option" where
  "retry_loop net team_id season opp leverage attempts w =
     (if attempts < MAX_RETRIES then
        (case lineuppull net team_id season opp leverage w of
           (w1, Inr df) \<Rightarrow> (w1, attempts, Some df)
         | (w1, Inl e) \<Rightarrow>
             retry_loop net team_id season opp leverage (attempts + 1)
               (if attempts + 1 < MAX_RETRIES then sleep RETRY_DELAY w1 else w1))
      else (w, attempts, None))"
  by pat_completeness auto
termination
  by (relation "measure (\<lambda>(net, team_id, season, opp, leverage, attempts, w). MAX_RETRIES - attempts)")
    auto

declare retry_loop.simps [simp del]

text \<open>
  The state of a block and the body of its inner loop, for one team and side:
  \<^verbatim>\<open>
  if not success:
      fail_list.append((team_id, side))
      continue
  ... tag df ...
  if len(df) > 2:
      df.to_csv(filepath, index=False)
  if opp:
      vs_frames.append(df)
  else:
      team_frames.append(df)
  time.sleep(SLEEP_BETWEEN)
  \<close>
\<close>

record block_state =
  bworld :: "table world"
  team_frames :: "table list"
  vs_frames :: "table list"
  fail_list :: "(int \<times> string) list"

definition pull_unit ::
  "(nat \<Rightarrow> response) \<Rightarrow> int \<Rightarrow> string \<Rightarrow> bool \<Rightarrow> bool \<Rightarrow> block_state \<Rightarrow> int \<Rightarrow> block_state" where
  "pull_unit net y season leverage opp st team_id =
     (let side = (if opp then ''Opponent'' else ''Team'');
          filename = get_filename team_id opp leverage;
          filepath = output_dir y @ ''/'' @ filename;
          (w1, attempts, res) = retry_loop net team_id season opp leverage 0 (bworld st)
      in case res of
           None \<Rightarrow> st\<lparr>bworld := w1, fail_list := fail_list st @ [(team_id, side)]\<rparr>
         | Some df0 \<Rightarrow>
             (let df = tag_table df0 team_id y season opp;
                  w2 = (if length (trows df) > 2 then w1\<lparr>files := (files w1)(filepath \<mapsto> df)\<rparr>
                        else w1);
                  st1 = (if opp then st\<lparr>vs_frames := vs_frames st @ [df]\<rparr>
                         else st\<lparr>team_frames := team_frames st @ [df]\<rparr>)
              in st1\<lparr>bworld := sleep SLEEP_BETWEEN w2\<rparr>))"

text \<open>\<open>pull_block\<close>: both sides in turn, each over the team list; the state at the end
  holds what the Python function returns.\<close>

definition pull_block ::
  "(nat \<Rightarrow> response) \<Rightarrow> int list \<Rightarrow> int \<Rightarrow> bool \<Rightarrow> table world \<Rightarrow> block_state" where
  "pull_block net team_ids y leverage w =
     (let season = season_label y
      in foldl (\<lambda>st opp. foldl (pull_unit net y season leverage opp) st team_ids)
           \<lparr>bworld = w, team_frames = [], vs_frames = [], fail_list = []\<rparr>
           [False, True])"






section \<open>Row-wise reading of the merge\<close>

text \<open>
  The definitions of this section are not code of the program: they say, row by row and
  column by column, what the program's column-wise operations compute, and the lemmas
  below prove that they do.
\<close>

definition base_cols :: "string list" where
  "base_cols = [''FG3A'', ''FG2A'', ''FTA'', ''Turnovers'', ''OffRebounds'']"

definition fga_of :: "row \<Rightarrow> fl" where
  "fga_of r = fadd (cellv r ''FG3A'') (cellv r ''FG2A'')"

definition fta_rate :: "row \<Rightarrow> fl" where
  "fta_rate r = fdiv (cellv r ''FTA'') (fga_of r)"

definition tov_pct :: "row \<Rightarrow> fl" where
  "tov_pct r =
     fdiv (fmul (Fin 100) (cellv r ''Turnovers''))
       (fsub (fadd (fadd (fga_of r) (fmul (Fin 0.44) (cellv r ''FTA''))) (cellv r ''Turnovers''))
          (cellv r ''OffRebounds''))"

definition derive_row :: "row \<Rightarrow> row" where
  "derive_row r = r\<lparr>vals := (vals r)(''FTA_Rate'' \<mapsto> fta_rate r, ''TOV%'' \<mapsto> tov_pct r)\<rparr>"

definition derived_columns :: "string list \<Rightarrow> string list" where
  "derived_columns cs =
     (let cs1 = (if ''FTA_Rate'' \<in> set cs then cs else cs @ [''FTA_Rate''])
      in if ''TOV%'' \<in> set cs1 then cs1 else cs1 @ [''TOV%''])"

definition prior_rows :: "frame option \<Rightarrow> int \<Rightarrow> row list" where
  "prior_rows stored y = (case stored of Some e \<Rightarrow> filter (\<lambda>r. year r \<noteq> y) (rows e) | None \<Rightarrow> [])"

definition prior_cols :: "frame option \<Rightarrow> string list" where
  "prior_cols stored = (case stored of Some e \<Rightarrow> columns e | None \<Rightarrow> [])"

definition merged_cols :: "frame option \<Rightarrow> frame \<Rightarrow> string list" where
  "merged_cols stored new_data =
     prior_cols stored @ filter (\<lambda>c. c \<notin> set (prior_cols stored)) (columns new_data)"

definition merged_rows :: "frame option \<Rightarrow> frame \<Rightarrow> int \<Rightarrow> row list" where
  "merged_rows stored new_data y =
     sort_values (drop_duplicates (prior_rows stored y @ rows new_data))"

text \<open>The keys of the rows that do not carry the key \<open>k\<close>, in order, and the rows of the
  table a call of \<open>update_csv\<close> returned (none when it raised).\<close>

definition other_keys :: "int \<Rightarrow> row list \<Rightarrow> int list" where
  "other_keys k rs = map year (filter (\<lambda>r. year r \<noteq> k) rs)"

definition written_rows :: "filesystem \<times> (error + frame) \<Rightarrow> row list" where
  "written_rows res = (case snd res of Inl e \<Rightarrow> [] | Inr t \<Rightarrow> rows t)"

section \<open>Reading the season-totals run as a loop\<close>

text \<open>
  Again not code of the program. \<open>usable_totals\<close> says of a response that the \<open>try\<close> of
  \<open>fetch_totals\<close> returns on it; \<open>datasets\<close> lists the four blocks of \<open>main\<close> (season type,
  leverage, file) and \<open>run_datasets\<close> runs a list of such blocks the way \<open>main\<close> runs its
  four.
\<close>

definition usable_totals :: "response \<Rightarrow> bool" where
  "usable_totals r =
     (case r of
        NoResponse \<Rightarrow> False
      | Response st b \<Rightarrow>
          (case b of
             NotJson \<Rightarrow> False
           | NonObject \<Rightarrow> False
           | Object flds \<Rightarrow>
               (case map_of flds ''single_row_table_data'' of
                  None \<Rightarrow> False
                | Some (Row kvs) \<Rightarrow> True
                | Some (Table rs) \<Rightarrow> False
                | Some Scalar \<Rightarrow> False)))"

definition datasets :: "(string \<times> bool \<times> string) list" where
  "datasets =
     [(''Regular Season'', False, ''data/season_totals.csv''),
      (''Playoffs'', False, ''data/season_totals_playoffs.csv''),
      (''Regular Season'', True, ''data/season_totals_leverage.csv''),
      (''Playoffs'', True, ''data/season_totals_playoffs_leverage.csv'')]"

fun run_datasets ::
  "(nat \<Rightarrow> response) \<Rightarrow> int \<Rightarrow> (string \<times> bool \<times> string) list \<Rightarrow> frame world
     \<Rightarrow> frame world \<times> error option" where
  "run_datasets net y [] w = (w, None)"
| "run_datasets net y ((season_type, leverage, csv_path) # rest) w =
     (case sync_totals net y season_type leverage csv_path w of
        (w1, Some e) \<Rightarrow> (w1, Some e)
      | (w1, None) \<Rightarrow> run_datasets net y rest w1)"

section \<open>Reading file names back\<close>






section \<open>Example data\<close>

text \<open>A row of the five base statistics, as the remote service sends it.\<close>

definition stats_row :: "real \<Rightarrow> real \<Rightarrow> real \<Rightarrow> real \<Rightarrow> real \<Rightarrow> (string \<times> fl) list" where
  "stats_row fg3a fg2a fta tov oreb =
     [(''FG3A'', Fin fg3a), (''FG2A'', Fin fg2a), (''FTA'', Fin fta),
      (''Turnovers'', Fin tov), (''OffRebounds'', Fin oreb)]"

text \<open>A stored table that no merge has produced: unsorted, with a key twice.\<close>

definition unsorted_table :: frame where
  "unsorted_table =
     \<lparr>columns = base_cols,
      rows = [\<lparr>year = 2025, vals = map_of (stats_row 1 2 3 4 5)\<rparr>,
              \<lparr>year = 2023, vals = map_of (stats_row 6 7 8 9 1)\<rparr>,
              \<lparr>year = 2025, vals = map_of (stats_row 2 3 4 5 6)\<rparr>]\<rparr>"

text \<open>A world in which nothing has happened yet, and some remote services.\<close>

definition world0 :: "'f world" where
  "world0 = \<lparr>files = Map.empty, sent = [], slept = []\<rparr>"

definition wowy_ok :: "(string \<times> fl) list list \<Rightarrow> response" where
  "wowy_ok rs = Response 200 (Object [(''multi_row_table_data'', Table rs)])"

definition totals_ok :: "nat \<Rightarrow> (string \<times> fl) list \<Rightarrow> response" where
  "totals_ok st kvs = Response st (Object [(''single_row_table_data'', Row kvs)])"

definition lineups :: "nat \<Rightarrow> (string \<times> fl) list list" where
  "lineups n = replicate n [(''Minutes'', Fin 12), (''Corner3FGM'', Fin 1)]"




section \<open>Lemmas on the merge\<close>

lemma map2_same: "map2 f (map g xs) (map h xs) = map (\<lambda>x. f (g x) (h x)) xs"
  by (induction xs) auto

lemma map2_same_l: "map2 f xs (map h xs) = map (\<lambda>x. f x (h x)) xs"
  by (induction xs) auto

lemma add_derived_cols_rows:
  assumes "set base_cols \<subseteq> set (columns df)"
  shows "add_derived_cols df =
           Inr \<lparr>columns = derived_columns (columns df), rows = map derive_row (rows df)\<rparr>"
  using assms
  by (simp add: add_derived_cols_def getcol_def setcol_def base_cols_def Let_def
      map2_same map2_same_l derived_columns_def derive_row_def fta_rate_def tov_pct_def
      fga_of_def cellv_def o_def)

lemma add_derived_cols_Inr:
  assumes "add_derived_cols df = Inr d"
  shows "set base_cols \<subseteq> set (columns df)"
  using assms
  by (auto simp add: add_derived_cols_def getcol_def setcol_def base_cols_def Let_def
      split: if_splits sum.splits)

lemma year_derive_row [simp]: "year (derive_row r) = year r"
  by (simp add: derive_row_def)

lemma cellv_derive_row_base:
  "c \<noteq> ''FTA_Rate'' \<Longrightarrow> c \<noteq> ''TOV%'' \<Longrightarrow> cellv (derive_row r) c = cellv r c"
  by (simp add: derive_row_def cellv_def)

lemma derive_row_idem [simp]: "derive_row (derive_row r) = derive_row r"
proof -
  have "fta_rate (derive_row r) = fta_rate r" "tov_pct (derive_row r) = tov_pct r"
    by (simp_all add: fta_rate_def tov_pct_def fga_of_def cellv_derive_row_base)
  then show ?thesis
    by (simp add: derive_row_def)
qed

lemma derived_columns_idem [simp]: "derived_columns (derived_columns cs) = derived_columns cs"
  by (simp add: derived_columns_def Let_def)

lemma set_derived_columns: "set (derived_columns cs) = set cs \<union> {''FTA_Rate'', ''TOV%''}"
  by (auto simp add: derived_columns_def Let_def)

lemma drop_duplicates_subset: "set (drop_duplicates rs) \<subseteq> set rs"
  by (induction rs) auto

lemma years_drop_duplicates: "year ` set (drop_duplicates rs) = year ` set rs"
  by (induction rs) auto

lemma distinct_drop_duplicates: "distinct (map year (drop_duplicates rs))"
  by (induction rs) (auto simp: years_drop_duplicates)

lemma drop_duplicates_id: "distinct (map year rs) \<Longrightarrow> drop_duplicates rs = rs"
  by (induction rs) auto

lemma drop_duplicates_append:
  "drop_duplicates (xs @ ys) =
     filter (\<lambda>r. year r \<notin> year ` set ys) (drop_duplicates xs) @ drop_duplicates ys"
  by (induction xs) (auto simp: years_drop_duplicates)

lemma drop_duplicates_same_key:
  "rs \<noteq> [] \<Longrightarrow> \<forall>r\<in>set rs. year r = k \<Longrightarrow> drop_duplicates rs = [last rs]"
proof (induction rs)
  case Nil
  then show ?case by simp
next
  case (Cons a rs)
  show ?case
  proof (cases "rs = []")
    case True
    then show ?thesis by simp
  next
    case False
    then obtain b where "b \<in> set rs" by (cases rs) auto
    with Cons.prems have "year a \<in> set (map year rs)" by force
    with Cons False show ?thesis by simp
  qed
qed

lemma drop_duplicates_map: "drop_duplicates (map derive_row rs) = map derive_row (drop_duplicates rs)"
  by (induction rs) (auto simp: image_iff)

lemma insort_derive_row:
  "insort_key year (derive_row r) (map derive_row rs) = map derive_row (insort_key year r rs)"
  by (induction rs) auto

lemma sort_values_map: "sort_values (map derive_row rs) = map derive_row (sort_values rs)"
  by (induction rs) (auto simp: sort_values_def insort_derive_row)

lemma sorted_sort_values: "sorted (map year (sort_values rs))"
  by (simp add: sort_values_def)

lemma set_sort_values [simp]: "set (sort_values rs) = set rs"
  by (simp add: sort_values_def)

lemma distinct_sort_values:
  "distinct (map year (sort_values rs)) = distinct (map year rs)"
  unfolding sort_values_def
  by (induction rs) (simp_all add: distinct_insort_key)

lemma keyed_sorted_unique:
  assumes "sorted (map year xs)" "distinct (map year xs)"
      and "sorted (map year ys)" "distinct (map year ys)"
      and "set xs = set ys"
  shows "xs = ys"
proof -
  have "map year xs = map year ys"
    using assms by (intro sorted_distinct_set_unique) auto
  moreover have "inj_on year (set xs \<union> set ys)"
    using assms by (simp add: distinct_map)
  ultimately show ?thesis
    by (rule map_inj_on)
qed

lemma merge_rows_eq:
  "merge_rows stored new_data y =
     add_derived_cols \<lparr>columns = merged_cols stored new_data, rows = merged_rows stored new_data y\<rparr>"
  by (cases stored)
    (simp_all add: merge_rows_def Let_def concat_frames_def empty_frame_def prior_rows_def
      prior_cols_def merged_cols_def merged_rows_def)

lemma merge_rows_Inr:
  assumes "merge_rows stored new_data y = Inr t"
  shows "set base_cols \<subseteq> set (merged_cols stored new_data)"
    and "t = \<lparr>columns = derived_columns (merged_cols stored new_data),
              rows = map derive_row (merged_rows stored new_data y)\<rparr>"
proof -
  show c: "set base_cols \<subseteq> set (merged_cols stored new_data)"
    using assms add_derived_cols_Inr [of _ t] by (simp add: merge_rows_eq) fastforce
  show "t = \<lparr>columns = derived_columns (merged_cols stored new_data),
              rows = map derive_row (merged_rows stored new_data y)\<rparr>"
    using assms add_derived_cols_rows [of "\<lparr>columns = merged_cols stored new_data, rows = merged_rows stored new_data y\<rparr>"] c
    by (simp add: merge_rows_eq)
qed

lemma merge_rows_ok:
  assumes "set base_cols \<subseteq> set (merged_cols stored new_data)"
  shows "merge_rows stored new_data y =
           Inr \<lparr>columns = derived_columns (merged_cols stored new_data),
                rows = map derive_row (merged_rows stored new_data y)\<rparr>"
  using assms add_derived_cols_rows [of "\<lparr>columns = merged_cols stored new_data, rows = merged_rows stored new_data y\<rparr>"]
  by (simp add: merge_rows_eq)

lemma sorted_merged_rows: "sorted_wrt (<) (map year (merged_rows stored new_data y))"
  by (simp add: strict_sorted_iff merged_rows_def sorted_sort_values distinct_sort_values
      distinct_drop_duplicates)

lemma map_year_derive [simp]: "map year (map derive_row rs) = map year rs"
  by (simp add: o_def)

lemma filter_derive_row:
  "filter (\<lambda>r. P (year r)) (map derive_row rs) = map derive_row (filter (\<lambda>r. P (year r)) rs)"
  by (induction rs) auto

lemma filter_key_single:
  "distinct (map year rs) \<Longrightarrow> n \<in> set rs \<Longrightarrow> filter (\<lambda>r. year r = year n) rs = [n]"
proof (induction rs)
  case Nil
  then show ?case by simp
next
  case (Cons a rs)
  show ?case
  proof (cases "a = n")
    case True
    with Cons.prems have "\<forall>r\<in>set rs. year r \<noteq> year n" by (auto simp: image_iff)
    then have "filter (\<lambda>r. year r = year n) rs = []" by (simp add: filter_empty_conv)
    with True show ?thesis by simp
  next
    case False
    with Cons.prems have "n \<in> set rs" "year a \<noteq> year n" by (auto simp: image_iff)
    with Cons show ?thesis by simp
  qed
qed

lemma sorted_filter_year:
  "sorted_wrt (<) (map year rs) \<Longrightarrow> sorted_wrt (<) (map year (filter P rs))"
  by (induction rs) auto

lemma sort_values_sorted_id: "sorted_wrt (<) (map year rs) \<Longrightarrow> sort_values rs = rs"
  by (simp add: sort_values_def sort_key_id_if_sorted strict_sorted_iff)

lemma sort_values_append_key:
  assumes s: "sorted_wrt (<) (map year S)" and n: "n \<in> set S"
      and u: "\<forall>r\<in>set S. year r = year n \<longrightarrow> r = n"
  shows "sort_values (filter (\<lambda>r. year r \<noteq> year n) S @ [n]) = S"
proof (rule keyed_sorted_unique)
  let ?A = "filter (\<lambda>r. year r \<noteq> year n) S"
  show "sorted (map year (sort_values (?A @ [n])))" by (rule sorted_sort_values)
  have "distinct (map year ?A)"
    using sorted_filter_year [OF s] by (simp add: strict_sorted_iff)
  then show "distinct (map year (sort_values (?A @ [n])))"
    by (auto simp add: distinct_sort_values)
  show "sorted (map year S)" "distinct (map year S)"
    using s by (simp_all add: strict_sorted_iff)
  show "set (sort_values (?A @ [n])) = set S"
    using n u by auto
qed

lemma remerge_rows:
  assumes s: "sorted_wrt (<) (map year S)" and n: "n \<in> set S"
      and u: "\<forall>r\<in>set S. year r = year n \<longrightarrow> r = n"
  shows "map derive_row (sort_values (drop_duplicates
            (filter (\<lambda>r. year r \<noteq> year n) (map derive_row S) @ [n]))) = map derive_row S"
proof -
  let ?A = "filter (\<lambda>r. year r \<noteq> year n) S"
  have f: "filter (\<lambda>r. year r \<noteq> year n) (map derive_row S) = map derive_row ?A"
    by (rule filter_derive_row)
  have "distinct (map year ?A)"
    using sorted_filter_year [OF s] by (simp add: strict_sorted_iff)
  then have "distinct (map year (map derive_row ?A @ [n]))"
    by (auto simp: o_def)
  then have d: "drop_duplicates (map derive_row ?A @ [n]) = map derive_row ?A @ [n]"
    by (rule drop_duplicates_id)
  have "map derive_row (sort_values (map derive_row ?A @ [n]))
        = sort_values (map derive_row (map derive_row ?A @ [n]))"
    by (simp only: sort_values_map)
  also have "\<dots> = sort_values (map derive_row (?A @ [n]))"
    by (simp add: o_def)
  also have "\<dots> = map derive_row (sort_values (?A @ [n]))"
    by (simp only: sort_values_map)
  also have "\<dots> = map derive_row S"
    by (simp only: sort_values_append_key [OF s n u])
  finally show ?thesis by (simp only: f d)
qed

lemma merged_rows_single:
  assumes "rows new_data = [n]" "year n = k"
  shows "n \<in> set (merged_rows stored new_data k)"
    and "\<forall>r\<in>set (merged_rows stored new_data k). year r = year n \<longrightarrow> r = n"
proof -
  have e: "drop_duplicates (prior_rows stored k @ [n])
           = filter (\<lambda>r. year r \<noteq> k) (drop_duplicates (prior_rows stored k)) @ [n]"
    using assms by (simp add: drop_duplicates_append)
  show "n \<in> set (merged_rows stored new_data k)"
    using assms e by (simp add: merged_rows_def)
  show "\<forall>r\<in>set (merged_rows stored new_data k). year r = year n \<longrightarrow> r = n"
    using assms e by (auto simp add: merged_rows_def)
qed

lemma cellv_derive_row_rate [simp]: "cellv (derive_row r) ''FTA_Rate'' = fta_rate r"
  by (simp add: derive_row_def cellv_def)

lemma cellv_derive_row_tov [simp]: "cellv (derive_row r) ''TOV%'' = tov_pct r"
  by (simp add: derive_row_def cellv_def)

lemma update_csv_Inr:
  assumes "update_csv fs csv_path new_data y = (fs', Inr t)"
  shows "merge_rows (fs csv_path) new_data y = Inr t" and "fs' = fs(csv_path \<mapsto> t)"
  using assms by (auto simp: update_csv_def split: sum.splits)

lemma update_csv_ok:
  assumes "set base_cols \<subseteq> set (merged_cols (fs csv_path) new_data)"
  shows "update_csv fs csv_path new_data y =
           (fs(csv_path \<mapsto> \<lparr>columns = derived_columns (merged_cols (fs csv_path) new_data),
                               rows = map derive_row (merged_rows (fs csv_path) new_data y)\<rparr>),
            Inr \<lparr>columns = derived_columns (merged_cols (fs csv_path) new_data),
                 rows = map derive_row (merged_rows (fs csv_path) new_data y)\<rparr>)"
  using merge_rows_ok [OF assms, of y] by (simp add: update_csv_def)

lemma merged_rows_same_key:
  assumes s: "sorted_wrt (<) (map year S)"
      and ne: "rows new_data \<noteq> []" and keys: "\<forall>r\<in>set (rows new_data). year r = k"
      and st: "rows t0 = map derive_row S"
  shows "filter (\<lambda>r. year r \<noteq> k) (map derive_row (merged_rows (Some t0) new_data k))
           = filter (\<lambda>r. year r \<noteq> k) (rows t0)"
    and "filter (\<lambda>r. year r = k) (map derive_row (merged_rows (Some t0) new_data k))
           = [derive_row (last (rows new_data))]"
proof -
  let ?X = "filter (\<lambda>r. year r \<noteq> k) (rows t0)"
  let ?l = "last (rows new_data)"
  have X: "?X = map derive_row (filter (\<lambda>r. year r \<noteq> k) S)"
    using filter_derive_row [of "\<lambda>y. y \<noteq> k" S] by (simp add: st)
  have sX: "sorted_wrt (<) (map year ?X)"
    using sorted_filter_year [OF s, of "\<lambda>r. year r \<noteq> k"] by (simp add: X o_def)
  then have dX: "drop_duplicates ?X = ?X"
    by (simp add: drop_duplicates_id strict_sorted_iff)
  from ne obtain r where "r \<in> set (rows new_data)" by (cases "rows new_data") auto
  with keys have img: "year ` set (rows new_data) = {k}" by auto
  have lk: "year ?l = k" using ne keys by simp
  have dd: "drop_duplicates (?X @ rows new_data) = ?X @ [?l]"
    by (simp add: drop_duplicates_append dX img drop_duplicates_same_key [OF ne keys])
  have mr: "merged_rows (Some t0) new_data k = sort_values (?X @ [?l])"
    by (simp only: merged_rows_def prior_rows_def option.case dd)
  have "filter (\<lambda>r. year r \<noteq> k) (sort_values (?X @ [?l])) = sort_values ?X"
    by (simp add: sort_values_def filter_sort lk)
  also have "\<dots> = ?X" using sX by (rule sort_values_sorted_id)
  finally have a: "filter (\<lambda>r. year r \<noteq> k) (merged_rows (Some t0) new_data k) = ?X"
    by (simp only: mr)
  have "map derive_row ?X = ?X" by (simp add: X)
  with a show "filter (\<lambda>r. year r \<noteq> k) (map derive_row (merged_rows (Some t0) new_data k)) = ?X"
    using filter_derive_row [of "\<lambda>y. y \<noteq> k" "merged_rows (Some t0) new_data k"] by simp
  have "filter (\<lambda>r. year r = k) (sort_values (?X @ [?l])) = sort_values [?l]"
    by (simp add: sort_values_def filter_sort lk)
  then have "filter (\<lambda>r. year r = k) (merged_rows (Some t0) new_data k) = [?l]"
    by (simp add: mr sort_values_def)
  then show "filter (\<lambda>r. year r = k) (map derive_row (merged_rows (Some t0) new_data k))
           = [derive_row ?l]"
    using filter_derive_row [of "\<lambda>y. y = k" "merged_rows (Some t0) new_data k"] by simp
qed

section \<open>Lemmas on fetching\<close>

lemma sent_sleep [simp]: "sent (sleep d w) = sent w"
  by (simp add: sleep_def)

lemma files_sleep [simp]: "files (sleep d w) = files w"
  by (simp add: sleep_def)

lemma slept_sleep [simp]: "slept (sleep d w) = slept w @ [d]"
  by (simp add: sleep_def)

lemma requests_get_world:
  "requests_get net url params w = (w', resp) \<Longrightarrow>
     sent w' = sent w @ [Get url params] \<and> files w' = files w \<and> slept w' = slept w
     \<and> resp = net (length (sent w))"
  by (auto simp: requests_get_def)

lemma lineuppull_world:
  assumes "lineuppull net team_id season opp leverage w = (w', res)"
  shows "length (sent w') = Suc (length (sent w))" and "files w' = files w"
    and "slept w' = slept w"
  using assms by (auto simp: lineuppull_def requests_get_def Let_def)

lemma totals_try_world:
  assumes "totals_try net y params w = (w', res)"
  shows "length (sent w') = Suc (length (sent w))" and "files w' = files w"
    and "slept w' = slept w @ [2]"
  using assms by (auto simp: totals_try_def requests_get_def Let_def)

lemma totals_try_nonempty: "totals_try net y params w = (w', Inr df) \<Longrightarrow> \<not> df_empty df"
  by (auto simp: totals_try_def requests_get_def Let_def df_empty_def totals_frame_def
      split: response.splits body.splits option.splits field.splits)

lemma retry_loop_count:
  assumes "retry_loop net team_id season opp leverage a w = (w', a', res)"
      and "a \<le> MAX_RETRIES"
  shows "a \<le> a' \<and> a' \<le> MAX_RETRIES \<and> files w' = files w
     \<and> (res = None \<longrightarrow> a' = MAX_RETRIES \<and> length (sent w') = length (sent w) + (MAX_RETRIES - a))
     \<and> (res \<noteq> None \<longrightarrow> a' < MAX_RETRIES \<and> length (sent w') = length (sent w) + (a' - a) + 1)"
  using assms
proof (induction net team_id season opp leverage a w rule: retry_loop.induct)
  case (1 net team_id season opp leverage attempts w)
  show ?case
  proof (cases "attempts < MAX_RETRIES")
    case False
    with "1.prems" show ?thesis
      by (simp add: retry_loop.simps [of net team_id season opp leverage attempts w])
  next
    case True
    obtain w1 r where l: "lineuppull net team_id season opp leverage w = (w1, r)"
      by (cases "lineuppull net team_id season opp leverage w")
    note lw = lineuppull_world [OF l]
    show ?thesis
    proof (cases r)
      case (Inr df)
      with "1.prems" True l lw show ?thesis
        by (auto simp add: retry_loop.simps [of net team_id season opp leverage attempts w])
    next
      case (Inl e)
      let ?w2 = "if attempts + 1 < MAX_RETRIES then sleep RETRY_DELAY w1 else w1"
      from "1.prems" True l Inl
      have rec: "retry_loop net team_id season opp leverage (attempts + 1) ?w2 = (w', a', res)"
        by (simp add: retry_loop.simps [of net team_id season opp leverage attempts w])
      have "attempts + 1 \<le> MAX_RETRIES" using True by simp
      from "1.IH" [OF True l [symmetric] _ rec this] Inl lw
      show ?thesis by (auto split: if_splits)
    qed
  qed
qed

lemma fetch_loop_count:
  assumes "fetch_loop net y params a w = (w', res)"
      and "1 \<le> a" and "a \<le> max_retries"
  shows "\<exists>df. res = Some df \<and> files w' = files w
     \<and> length (sent w) < length (sent w')
     \<and> length (sent w') \<le> length (sent w) + (max_retries + 1 - a)
     \<and> (df_empty df \<longrightarrow> df = empty_frame
           \<and> length (sent w') = length (sent w) + (max_retries + 1 - a))"
  using assms
proof (induction net y params a w rule: fetch_loop.induct)
  case (1 net y params attempt w)
  have lt: "attempt < max_retries + 1" using "1.prems" by simp
  obtain w1 r where t: "totals_try net y params w = (w1, r)"
    by (cases "totals_try net y params w")
  note tw = totals_try_world [OF t]
  show ?case
  proof (cases r)
    case (Inr df)
    with "1.prems" lt t tw totals_try_nonempty [of net y params w w1 df] show ?thesis
      by (auto simp add: fetch_loop.simps [of net y params attempt w])
  next
    case (Inl e)
    show ?thesis
    proof (cases "attempt < max_retries")
      case False
      with "1.prems" lt t tw Inl show ?thesis
        by (auto simp add: fetch_loop.simps [of net y params attempt w] df_empty_def
            empty_frame_def)
    next
      case True
      from "1.prems" lt t Inl True
      have rec: "fetch_loop net y params (attempt + 1) (sleep 2 w1) = (w', res)"
        by (simp add: fetch_loop.simps [of net y params attempt w])
      from "1.IH" [OF lt t [symmetric] _ True rec] Inl True tw
      show ?thesis by auto
    qed
  qed
qed

lemma length_trows_set_scalar [simp]: "length (trows (set_scalar df c v)) = length (trows df)"
  by (simp add: set_scalar_def)

lemma length_trows_tag_table [simp]:
  "length (trows (tag_table df team_id y season opp)) = length (trows df)"
  by (simp add: tag_table_def Let_def)

lemma length_trows_table_of_rows [simp]: "length (trows (table_of_rows rs)) = length rs"
  by (simp add: table_of_rows_def)

lemma length_lineups [simp]: "length (lineups n) = n"
  by (simp add: lineups_def)

lemma totals_try_unusable:
  assumes "\<not> usable_totals (net (length (sent w)))"
  shows "\<exists>w1 e. totals_try net y params w = (w1, Inl e)"
  using assms
  by (auto simp: totals_try_def requests_get_def Let_def usable_totals_def sleep_def
      split: response.splits body.splits option.splits field.splits)

lemma fetch_loop_unusable:
  assumes "1 \<le> a" and "a \<le> max_retries"
      and "\<forall>i < max_retries + 1 - a. \<not> usable_totals (net (length (sent w) + i))"
  shows "snd (fetch_loop net y params a w) = Some empty_frame"
  using assms
proof (induction net y params a w rule: fetch_loop.induct)
  case (1 net y params attempt w)
  have lt: "attempt < max_retries + 1" using "1.prems" by simp
  from "1.prems"(3) lt have "\<not> usable_totals (net (length (sent w) + 0))"
    by (metis zero_less_diff)
  then obtain w1 e where t: "totals_try net y params w = (w1, Inl e)"
    using totals_try_unusable [of net w y params] by auto
  note tw = totals_try_world [OF t]
  show ?case
  proof (cases "attempt < max_retries")
    case False
    with lt t show ?thesis
      by (simp add: fetch_loop.simps [of net y params attempt w])
  next
    case True
    have "\<forall>i < max_retries + 1 - (attempt + 1).
            \<not> usable_totals (net (length (sent (sleep 2 w1)) + i))"
    proof (intro allI impI)
      fix i assume "i < max_retries + 1 - (attempt + 1)"
      then have "Suc i < max_retries + 1 - attempt" by simp
      with "1.prems"(3) have "\<not> usable_totals (net (length (sent w) + Suc i))" by blast
      then show "\<not> usable_totals (net (length (sent (sleep 2 w1)) + i))"
        by (simp add: tw)
    qed
    from "1.IH" [OF lt t [symmetric] _ True _ _ this] True
    have "snd (fetch_loop net y params (attempt + 1) (sleep 2 w1)) = Some empty_frame"
      by simp
    with lt t True show ?thesis
      by (simp add: fetch_loop.simps [of net y params attempt w])
  qed
qed

lemma fetch_totals_total:
  "\<exists>w' df. fetch_totals net y season_type leverage w = (w', Some df) \<and> files w' = files w"
proof -
  obtain w' res where f: "fetch_loop net y (totals_params y season_type leverage) 1 w = (w', res)"
    by (cases "fetch_loop net y (totals_params y season_type leverage) 1 w")
  from fetch_loop_count [OF f] obtain df where "res = Some df" and "files w' = files w"
    by (auto simp: max_retries_def)
  with f show ?thesis unfolding fetch_totals_def by blast
qed

lemma sync_totals_skips:
  assumes "fetch_totals net y season_type leverage w = (w1, Some df)" and "df_empty df"
  shows "sync_totals net y season_type leverage csv_path w = (w1, None)"
  using assms by (simp add: sync_totals_def)

lemma sync_totals_other_files:
  assumes "q \<noteq> csv_path"
  shows "files (fst (sync_totals net y season_type leverage csv_path w)) q = files w q"
proof -
  obtain w1 df where f: "fetch_totals net y season_type leverage w = (w1, Some df)"
    and fw: "files w1 = files w"
    using fetch_totals_total [of net y season_type leverage w] by blast
  show ?thesis
    using assms
    by (auto simp: sync_totals_def f fw update_csv_def split: sum.splits)
qed

lemma run_datasets_other_files:
  assumes "q \<notin> set (map (\<lambda>d. snd (snd d)) ds)"
  shows "files (fst (run_datasets net y ds w)) q = files w q"
  using assms
proof (induction ds arbitrary: w)
  case Nil
  then show ?case by simp
next
  case (Cons d ds)
  obtain st lv p where d: "d = (st, lv, p)" by (cases d)
  obtain w1 r where s: "sync_totals net y st lv p w = (w1, r)"
    by (cases "sync_totals net y st lv p w")
  from Cons.prems d have "q \<noteq> p" by simp
  from sync_totals_other_files [OF this, of net y st lv w] s
  have f1: "files w1 q = files w q" by simp
  from Cons.prems have "q \<notin> set (map (\<lambda>d. snd (snd d)) ds)" by simp
  from Cons.IH [OF this, of w1] f1 show ?case
    by (cases r) (simp_all add: d s)
qed

lemma run_datasets_append:
  "run_datasets net y (xs @ ys) w =
     (case run_datasets net y xs w of
        (w1, Some e) \<Rightarrow> (w1, Some e)
      | (w1, None) \<Rightarrow> run_datasets net y ys w1)"
proof (induction xs arbitrary: w)
  case Nil
  then show ?case by simp
next
  case (Cons d xs)
  obtain st lv p where d: "d = (st, lv, p)" by (cases d)
  show ?case
    by (auto simp: d Cons.IH split: prod.splits option.splits)
qed

lemma season_totals_main_run:
  "season_totals_main net y w = run_datasets net y datasets w"
  by (auto simp: season_totals_main_def datasets_def split: prod.splits option.splits)

lemma distinct_dataset_paths: "distinct (map (\<lambda>d. snd (snd d)) datasets)"
  by (simp add: datasets_def)

section \<open>Lemmas on file names\<close>







lemma str_nat_nonempty: "str_nat n \<noteq> []"
  by (simp add: str_nat.simps [of n])












section \<open>Lemmas on blocks\<close>














section \<open>The merge: claims\<close>

text \<open>
  C1 (merge idempotence). Merging a single new row with key \<open>k\<close> into any stored table
  (or into no table), when it succeeds, leaves a file that a second merge of the same
  row leaves exactly as it is and returns again, and that table has exactly one row with
  key \<open>k\<close>.
\<close>

theorem update_csv_idempotent:
  assumes new: "rows new_data = [n]" and key: "year n = k"
      and first: "update_csv fs csv_path new_data k = (fs1, Inr t1)"
  shows "update_csv fs1 csv_path new_data k = (fs1, Inr t1)
         \<and> fs1 csv_path = Some t1
         \<and> length (filter (\<lambda>r. year r = k) (rows t1)) = 1"
proof -
  let ?S = "merged_rows (fs csv_path) new_data k"
  let ?C = "merged_cols (fs csv_path) new_data"
  from first have m: "merge_rows (fs csv_path) new_data k = Inr t1"
    and f: "fs1 = fs(csv_path \<mapsto> t1)"
    by (auto simp: update_csv_def split: sum.splits)
  note b = merge_rows_Inr(1) [OF m]
  note t = merge_rows_Inr(2) [OF m]
  have s: "sorted_wrt (<) (map year ?S)" by (rule sorted_merged_rows)
  note ns = merged_rows_single [OF new key, of "fs csv_path"]
  have cols: "merged_cols (Some t1) new_data = derived_columns ?C"
  proof -
    have "set (columns new_data) \<subseteq> set (derived_columns ?C)"
      by (auto simp: set_derived_columns merged_cols_def)
    then have "filter (\<lambda>c. c \<notin> set (derived_columns ?C)) (columns new_data) = []"
      by (auto simp: filter_empty_conv)
    then show ?thesis by (simp add: merged_cols_def prior_cols_def t)
  qed
  have rws: "map derive_row (merged_rows (Some t1) new_data k) = map derive_row ?S"
    using remerge_rows [OF s ns] new key
    by (simp add: merged_rows_def prior_rows_def t)
  have "set base_cols \<subseteq> set (merged_cols (Some t1) new_data)"
    using b by (auto simp: cols set_derived_columns)
  then have "merge_rows (Some t1) new_data k =
               Inr \<lparr>columns = derived_columns (merged_cols (Some t1) new_data),
                    rows = map derive_row (merged_rows (Some t1) new_data k)\<rparr>"
    by (rule merge_rows_ok)
  also have "\<dots> = Inr \<lparr>columns = derived_columns ?C, rows = map derive_row ?S\<rparr>"
    by (simp only: cols rws derived_columns_idem)
  also have "\<dots> = Inr t1"
    using t by simp
  finally have "merge_rows (Some t1) new_data k = Inr t1" .
  then have again: "update_csv fs1 csv_path new_data k = (fs1, Inr t1)"
    by (simp add: update_csv_def f)
  have "distinct (map year ?S)" using s by (simp add: strict_sorted_iff)
  from filter_key_single [OF this ns(1)]
  have "filter (\<lambda>r. year r = k) (rows t1) = [derive_row n]"
    using filter_derive_row [of "\<lambda>y. y = k" ?S] key by (simp add: t)
  with again f show ?thesis by simp
qed

theorem update_csv_idempotent_witness:
  "\<exists>fs1 t1.
     update_csv [''data/season_totals.csv'' \<mapsto> unsorted_table] ''data/season_totals.csv''
       (totals_frame 2025 (stats_row 10 20 15 12 8)) 2025 = (fs1, Inr t1)
     \<and> update_csv fs1 ''data/season_totals.csv''
         (totals_frame 2025 (stats_row 10 20 15 12 8)) 2025 = (fs1, Inr t1)
     \<and> fs1 ''data/season_totals.csv'' = Some t1
     \<and> length (filter (\<lambda>r. year r = 2025) (rows t1)) = 1
     \<and> map year (rows t1) = [2023, 2025]"
proof -
  define p where "p = ''data/season_totals.csv''"
  define fs :: filesystem where "fs = [p \<mapsto> unsorted_table]"
  define new_data where "new_data = totals_frame 2025 (stats_row 10 20 15 12 8)"
  define t1 where "t1 = \<lparr>columns = derived_columns (merged_cols (fs p) new_data),
                          rows = map derive_row (merged_rows (fs p) new_data 2025)\<rparr>"
  have "set base_cols \<subseteq> set (merged_cols (fs p) new_data)"
    by (simp add: merged_cols_def prior_cols_def fs_def unsorted_table_def)
  then have "merge_rows (fs p) new_data 2025 = Inr t1"
    unfolding t1_def by (rule merge_rows_ok)
  then have u: "update_csv fs p new_data 2025 = (fs(p \<mapsto> t1), Inr t1)"
    by (simp add: update_csv_def)
  have r: "rows new_data = [\<lparr>year = 2025, vals = map_of (stats_row 10 20 15 12 8)\<rparr>]"
    by (simp add: new_data_def totals_frame_def stats_row_def)
  have y: "map year (rows t1) = [2023, 2025]"
    by (simp add: t1_def merged_rows_def prior_rows_def fs_def unsorted_table_def r
        sort_values_def)
  from update_csv_idempotent [OF r _ u] y u show ?thesis
    unfolding p_def fs_def new_data_def by auto
qed

text \<open>
  C2 (post-merge invariant). Whatever the stored table and the new rows, the table a
  successful merge writes has its keys in strictly ascending order: it is sorted by
  \<open>year\<close> and no two rows share a key.
\<close>

theorem update_csv_sorted:
  assumes "update_csv fs csv_path new_data y = (fs', Inr t)"
  shows "sorted_wrt (<) (map year (rows t)) \<and> fs' csv_path = Some t"
proof -
  from assms have m: "merge_rows (fs csv_path) new_data y = Inr t"
    and f: "fs' = fs(csv_path \<mapsto> t)"
    by (auto simp: update_csv_def split: sum.splits)
  from merge_rows_Inr(2) [OF m]
  have "map year (rows t) = map year (merged_rows (fs csv_path) new_data y)"
    by simp
  with sorted_merged_rows f show ?thesis by simp
qed

theorem update_csv_sorted_witness:
  "\<exists>fs' t.
     update_csv [''data/season_totals.csv'' \<mapsto> unsorted_table] ''data/season_totals.csv''
       (totals_frame 2024 (stats_row 10 20 15 12 8)) 2024 = (fs', Inr t)
     \<and> map year (rows t) = [2023, 2024, 2025]
     \<and> sorted_wrt (<) (map year (rows t))
     \<and> fs' ''data/season_totals.csv'' = Some t"
proof -
  define p where "p = ''data/season_totals.csv''"
  define fs :: filesystem where "fs = [p \<mapsto> unsorted_table]"
  define new_data where "new_data = totals_frame 2024 (stats_row 10 20 15 12 8)"
  define t where "t = \<lparr>columns = derived_columns (merged_cols (fs p) new_data),
                        rows = map derive_row (merged_rows (fs p) new_data 2024)\<rparr>"
  have "set base_cols \<subseteq> set (merged_cols (fs p) new_data)"
    by (simp add: merged_cols_def prior_cols_def fs_def unsorted_table_def)
  then have "merge_rows (fs p) new_data 2024 = Inr t"
    unfolding t_def by (rule merge_rows_ok)
  then have u: "update_csv fs p new_data 2024 = (fs(p \<mapsto> t), Inr t)"
    by (simp add: update_csv_def)
  have y: "map year (rows t) = [2023, 2024, 2025]"
    by (simp add: t_def merged_rows_def prior_rows_def fs_def unsorted_table_def
        new_data_def totals_frame_def stats_row_def sort_values_def)
  from update_csv_sorted [OF u] y u show ?thesis
    unfolding p_def fs_def new_data_def by auto
qed

text \<open>
  C3 (re-merge frame property), as the claim states it for every prior table, fails. The
  stored table \<open>unsorted_table\<close> has a row with key 2023 and two rows with key 2025. A merge
  for key 2023 keeps only the last of the two rows with key 2025: the rows with another
  key are not what they were.
\<close>

theorem remerge_drops_duplicate_of_other_key:
  "other_keys 2023 (rows unsorted_table) = [2025, 2025]
   \<and> other_keys 2023
        (written_rows
           (update_csv [''data/season_totals.csv'' \<mapsto> unsorted_table] ''data/season_totals.csv''
              (totals_frame 2023 (stats_row 10 20 15 12 8)) 2023))
      = [2025]"
proof -
  define p where "p = ''data/season_totals.csv''"
  define fs :: filesystem where "fs = [p \<mapsto> unsorted_table]"
  define new_data where "new_data = totals_frame 2023 (stats_row 10 20 15 12 8)"
  have c: "set base_cols \<subseteq> set (merged_cols (fs p) new_data)"
    by (simp add: merged_cols_def prior_cols_def fs_def unsorted_table_def)
  have "written_rows (update_csv fs p new_data 2023)
      = map derive_row (merged_rows (fs p) new_data 2023)"
    by (simp add: written_rows_def update_csv_ok [of fs p new_data, OF c])
  also have "merged_rows (fs p) new_data 2023 =
      [\<lparr>year = 2023, vals = map_of (stats_row 10 20 15 12 8)\<rparr>,
       \<lparr>year = 2025, vals = map_of (stats_row 2 3 4 5 6)\<rparr>]"
    by (simp add: merged_rows_def prior_rows_def fs_def unsorted_table_def
        new_data_def totals_frame_def stats_row_def sort_values_def)
  finally have "other_keys 2023 (written_rows (update_csv fs p new_data 2023)) = [2025]"
    by (simp add: other_keys_def)
  moreover have "other_keys 2023 (rows unsorted_table) = [2025, 2025]"
    by (simp add: other_keys_def unsorted_table_def)
  ultimately show ?thesis unfolding p_def fs_def new_data_def by simp
qed

text \<open>
  C3, amended. Let the stored table be one an earlier merge wrote. A new merge for key
  \<open>k\<close>, with new rows that all carry \<open>k\<close>, leaves every row with another key as it was, in
  the same order, and has exactly one row with key \<open>k\<close>: the last new row with its derived
  columns computed from it. Nothing of the old row for \<open>k\<close> remains.
\<close>

theorem update_csv_replaces_key:
  assumes prior: "update_csv fs0 csv_path new0 k0 = (fs1, Inr t0)"
      and ne: "rows new_data \<noteq> []"
      and keys: "\<forall>r\<in>set (rows new_data). year r = k"
      and again: "update_csv fs1 csv_path new_data k = (fs2, Inr t1)"
  shows "filter (\<lambda>r. year r \<noteq> k) (rows t1) = filter (\<lambda>r. year r \<noteq> k) (rows t0)
         \<and> filter (\<lambda>r. year r = k) (rows t1) = [derive_row (last (rows new_data))]
         \<and> fs2 csv_path = Some t1"
proof -
  let ?S = "merged_rows (fs0 csv_path) new0 k0"
  note m0 = update_csv_Inr [OF prior]
  have st: "rows t0 = map derive_row ?S"
    using merge_rows_Inr(2) [OF m0(1)] by simp
  have s: "sorted_wrt (<) (map year ?S)" by (rule sorted_merged_rows)
  have f1: "fs1 csv_path = Some t0" using m0(2) by simp
  note m1 = update_csv_Inr [OF again]
  have "rows t1 = map derive_row (merged_rows (Some t0) new_data k)"
    using merge_rows_Inr(2) [OF m1(1)] by (simp add: f1)
  with merged_rows_same_key [OF s ne keys st] m1(2) show ?thesis by simp
qed

theorem update_csv_replaces_key_witness:
  "\<exists>fs1 t0 fs2 t1.
     update_csv [''data/season_totals.csv'' \<mapsto> unsorted_table] ''data/season_totals.csv''
       (totals_frame 2024 (stats_row 10 20 15 12 8)) 2024 = (fs1, Inr t0)
     \<and> update_csv fs1 ''data/season_totals.csv''
         (totals_frame 2024 (stats_row 11 21 16 13 9)) 2024 = (fs2, Inr t1)
     \<and> filter (\<lambda>r. year r \<noteq> 2024) (rows t1) = filter (\<lambda>r. year r \<noteq> 2024) (rows t0)
     \<and> filter (\<lambda>r. year r = 2024) (rows t1)
         = [derive_row \<lparr>year = 2024, vals = map_of (stats_row 11 21 16 13 9)\<rparr>]
     \<and> map year (rows t0) = [2023, 2024, 2025]
     \<and> map year (rows t1) = [2023, 2024, 2025]
     \<and> map (\<lambda>r. cellv r ''FTA'') (rows t0) = [Fin 8, Fin 15, Fin 4]
     \<and> map (\<lambda>r. cellv r ''FTA'') (rows t1) = [Fin 8, Fin 16, Fin 4]"
proof -
  define p where "p = ''data/season_totals.csv''"
  define fs0 :: filesystem where "fs0 = [p \<mapsto> unsorted_table]"
  define new0 where "new0 = totals_frame 2024 (stats_row 10 20 15 12 8)"
  define new1 where "new1 = totals_frame 2024 (stats_row 11 21 16 13 9)"
  define t0 where "t0 = \<lparr>columns = derived_columns (merged_cols (fs0 p) new0),
                          rows = map derive_row (merged_rows (fs0 p) new0 2024)\<rparr>"
  define fs1 where "fs1 = fs0(p \<mapsto> t0)"
  define t1 where "t1 = \<lparr>columns = derived_columns (merged_cols (fs1 p) new1),
                          rows = map derive_row (merged_rows (fs1 p) new1 2024)\<rparr>"
  have "set base_cols \<subseteq> set (merged_cols (fs0 p) new0)"
    by (simp add: merged_cols_def prior_cols_def fs0_def unsorted_table_def)
  then have u0: "update_csv fs0 p new0 2024 = (fs1, Inr t0)"
    unfolding t0_def fs1_def by (rule update_csv_ok)
  have "set base_cols \<subseteq> set (merged_cols (fs1 p) new1)"
    by (auto simp add: merged_cols_def prior_cols_def fs1_def t0_def fs0_def unsorted_table_def
        set_derived_columns)
  then have u1: "update_csv fs1 p new1 2024 = (fs1(p \<mapsto> t1), Inr t1)"
    unfolding t1_def by (rule update_csv_ok)
  have r1: "rows new1 = [\<lparr>year = 2024, vals = map_of (stats_row 11 21 16 13 9)\<rparr>]"
    by (simp add: new1_def totals_frame_def stats_row_def)
  have rows0: "merged_rows (fs0 p) new0 2024 =
      [\<lparr>year = 2023, vals = map_of (stats_row 6 7 8 9 1)\<rparr>,
       \<lparr>year = 2024, vals = map_of (stats_row 10 20 15 12 8)\<rparr>,
       \<lparr>year = 2025, vals = map_of (stats_row 2 3 4 5 6)\<rparr>]"
    by (simp add: merged_rows_def prior_rows_def fs0_def unsorted_table_def
        new0_def totals_frame_def stats_row_def sort_values_def)
  have y0: "map year (rows t0) = [2023, 2024, 2025]"
    by (simp add: t0_def rows0)
  have c0: "map (\<lambda>r. cellv r ''FTA'') (rows t0) = [Fin 8, Fin 15, Fin 4]"
    by (simp add: t0_def rows0 cellv_derive_row_base) (simp add: cellv_def stats_row_def)
  have rt0: "rows t0 =
      [derive_row \<lparr>year = 2023, vals = map_of (stats_row 6 7 8 9 1)\<rparr>,
       derive_row \<lparr>year = 2024, vals = map_of (stats_row 10 20 15 12 8)\<rparr>,
       derive_row \<lparr>year = 2025, vals = map_of (stats_row 2 3 4 5 6)\<rparr>]"
    by (simp add: t0_def rows0)
  have f1: "fs1 p = Some t0" by (simp add: fs1_def)
  have rows1: "merged_rows (fs1 p) new1 2024 =
      [derive_row \<lparr>year = 2023, vals = map_of (stats_row 6 7 8 9 1)\<rparr>,
       \<lparr>year = 2024, vals = map_of (stats_row 11 21 16 13 9)\<rparr>,
       derive_row \<lparr>year = 2025, vals = map_of (stats_row 2 3 4 5 6)\<rparr>]"
    by (simp add: merged_rows_def prior_rows_def f1 rt0 r1 sort_values_def)
  have y1: "map year (rows t1) = [2023, 2024, 2025]"
    by (simp add: t1_def rows1)
  have c1: "map (\<lambda>r. cellv r ''FTA'') (rows t1) = [Fin 8, Fin 16, Fin 4]"
    by (simp add: t1_def rows1 cellv_derive_row_base) (simp add: cellv_def stats_row_def)
  have "\<forall>r\<in>set (rows new1). year r = 2024" by (simp add: r1)
  from update_csv_replaces_key [OF u0 _ this u1] r1 u0 u1 y0 y1 c0 c1 show ?thesis
    unfolding p_def fs0_def new0_def new1_def by auto
qed

section \<open>Derived columns: claims\<close>

text \<open>
  C4 (derived-column correctness). Where \<open>add_derived_cols\<close> returns, every row \<open>i\<close> of the
  result has \<open>FTA_Rate = FTA / (FG3A + FG2A)\<close> and
  \<open>TOV% = 100 * Turnovers / ((FG3A + FG2A) + 0.44 * FTA + Turnovers - OffRebounds)\<close>, computed
  from the row's own cells; on finite cells with a non-zero denominator this is the
  quotient of real numbers.
\<close>

theorem add_derived_cols_formulas:
  assumes res: "add_derived_cols df = Inr df'" and i: "i < length (rows df)"
  shows "length (rows df') = length (rows df)
    \<and> cellv (rows df' ! i) ''FTA_Rate''
        = fdiv (cellv (rows df ! i) ''FTA'')
            (fadd (cellv (rows df ! i) ''FG3A'') (cellv (rows df ! i) ''FG2A''))
    \<and> cellv (rows df' ! i) ''TOV%''
        = fdiv (fmul (Fin 100) (cellv (rows df ! i) ''Turnovers''))
            (fsub (fadd (fadd (fadd (cellv (rows df ! i) ''FG3A'') (cellv (rows df ! i) ''FG2A''))
                           (fmul (Fin 0.44) (cellv (rows df ! i) ''FTA'')))
                     (cellv (rows df ! i) ''Turnovers''))
               (cellv (rows df ! i) ''OffRebounds''))
    \<and> (\<forall>fg3a fg2a fta tov oreb.
          cellv (rows df ! i) ''FG3A'' = Fin fg3a \<and> cellv (rows df ! i) ''FG2A'' = Fin fg2a
          \<and> cellv (rows df ! i) ''FTA'' = Fin fta \<and> cellv (rows df ! i) ''Turnovers'' = Fin tov
          \<and> cellv (rows df ! i) ''OffRebounds'' = Fin oreb
          \<longrightarrow> (fg3a + fg2a \<noteq> 0
                \<longrightarrow> cellv (rows df' ! i) ''FTA_Rate'' = Fin (fta / (fg3a + fg2a)))
            \<and> ((fg3a + fg2a) + 0.44 * fta + tov - oreb \<noteq> 0
                \<longrightarrow> cellv (rows df' ! i) ''TOV%''
                    = Fin (100 * tov / ((fg3a + fg2a) + 0.44 * fta + tov - oreb))))"
proof -
  have c: "set base_cols \<subseteq> set (columns df)"
    using res by (rule add_derived_cols_Inr)
  have d: "df' = \<lparr>columns = derived_columns (columns df), rows = map derive_row (rows df)\<rparr>"
    using add_derived_cols_rows [OF c] res by simp
  have r: "rows df' ! i = derive_row (rows df ! i)"
    using i by (simp add: d)
  show ?thesis
    using i by (auto simp add: r d fta_rate_def tov_pct_def fga_of_def fsub_def)
qed

theorem add_derived_cols_formulas_witness:
  "\<exists>df'. add_derived_cols (totals_frame 2026 (stats_row 10 20 15 12 8)) = Inr df'
     \<and> length (rows df') = 1
     \<and> cellv (rows df' ! 0) ''FTA_Rate'' = Fin 0.5
     \<and> cellv (rows df' ! 0) ''TOV%'' = Fin (1200 / 40.6)"
proof -
  define df where "df = totals_frame 2026 (stats_row 10 20 15 12 8)"
  define df' where "df' = \<lparr>columns = derived_columns (columns df), rows = map derive_row (rows df)\<rparr>"
  have "set base_cols \<subseteq> set (columns df)"
    by (simp add: df_def totals_frame_def stats_row_def base_cols_def)
  then have res: "add_derived_cols df = Inr df'"
    unfolding df'_def by (rule add_derived_cols_rows)
  have i: "0 < length (rows df)"
    by (simp add: df_def totals_frame_def Let_def)
  have cells: "cellv (rows df ! 0) ''FG3A'' = Fin 10 \<and> cellv (rows df ! 0) ''FG2A'' = Fin 20
      \<and> cellv (rows df ! 0) ''FTA'' = Fin 15 \<and> cellv (rows df ! 0) ''Turnovers'' = Fin 12
      \<and> cellv (rows df ! 0) ''OffRebounds'' = Fin 8"
    by (simp add: df_def totals_frame_def stats_row_def cellv_def)
  from add_derived_cols_formulas [OF res i] cells
  have "length (rows df') = length (rows df)"
    and "(10::real) + 20 \<noteq> 0 \<longrightarrow> cellv (rows df' ! 0) ''FTA_Rate'' = Fin (15 / (10 + 20))"
    and "((10::real) + 20) + 0.44 * 15 + 12 - 8 \<noteq> 0
         \<longrightarrow> cellv (rows df' ! 0) ''TOV%'' = Fin (100 * 12 / ((10 + 20) + 0.44 * 15 + 12 - 8))"
    by blast+
  then have "length (rows df') = 1 \<and> cellv (rows df' ! 0) ''FTA_Rate'' = Fin 0.5
      \<and> cellv (rows df' ! 0) ''TOV%'' = Fin (1200 / 40.6)"
    by (simp add: df_def totals_frame_def Let_def)
  with res show ?thesis unfolding df_def by blast
qed

text \<open>
  C5 (division by zero), as the claim states it, fails: with no field-goal attempts and 15
  free throws the rate is \<open>15 / 0\<close>, which a pandas Series evaluates to \<open>+inf\<close>, not to \<open>NaN\<close>.
\<close>

theorem zero_attempts_rate_is_infinite:
  "column_of (add_derived_cols (totals_frame 2026 (stats_row 0 0 15 12 8))) ''FTA_Rate''
     = Inr [PInf]
   \<and> PInf \<noteq> NaN"
proof -
  define df where "df = totals_frame 2026 (stats_row 0 0 15 12 8)"
  have "set base_cols \<subseteq> set (columns df)"
    by (simp add: df_def totals_frame_def stats_row_def base_cols_def)
  from add_derived_cols_rows [OF this]
  have "column_of (add_derived_cols df) ''FTA_Rate'' = Inr (map fta_rate (rows df))"
    by (simp add: column_of_def getcol_def set_derived_columns o_def)
  also have "map fta_rate (rows df) = [PInf]"
    by (simp add: df_def totals_frame_def stats_row_def fta_rate_def fga_of_def cellv_def)
  finally show ?thesis by (simp add: df_def)
qed

text \<open>
  C5, amended. When the new rows carry the five base columns, \<open>add_derived_cols\<close> and the
  merge around it return whatever the cells hold, and the merged table is written. In a
  row of the result with finite base cells, a derived value whose denominator is zero is
  \<open>NaN\<close> when its numerator is zero as well, and otherwise the infinity with the sign of the
  numerator.
\<close>

theorem zero_denominator_not_fatal:
  assumes cols: "set base_cols \<subseteq> set (columns new_data)"
  shows "\<exists>fs' t d.
      update_csv fs csv_path new_data y = (fs', Inr t) \<and> fs' csv_path = Some t
    \<and> add_derived_cols new_data = Inr d
    \<and> (\<forall>r\<in>set (rows t). \<forall>fg3a fg2a fta tov oreb.
          cellv r ''FG3A'' = Fin fg3a \<and> cellv r ''FG2A'' = Fin fg2a \<and> cellv r ''FTA'' = Fin fta
          \<and> cellv r ''Turnovers'' = Fin tov \<and> cellv r ''OffRebounds'' = Fin oreb
          \<longrightarrow> (fg3a + fg2a = 0
                \<longrightarrow> cellv r ''FTA_Rate'' = (if fta = 0 then NaN else if 0 < fta then PInf else NInf))
            \<and> ((fg3a + fg2a) + 0.44 * fta + tov - oreb = 0
                \<longrightarrow> cellv r ''TOV%'' = (if tov = 0 then NaN else if 0 < tov then PInf else NInf)))"
proof -
  let ?t = "\<lparr>columns = derived_columns (merged_cols (fs csv_path) new_data),
             rows = map derive_row (merged_rows (fs csv_path) new_data y)\<rparr>"
  have "set (columns new_data) \<subseteq> set (merged_cols (fs csv_path) new_data)"
    by (auto simp: merged_cols_def)
  with cols have "set base_cols \<subseteq> set (merged_cols (fs csv_path) new_data)"
    by blast
  then have u: "update_csv fs csv_path new_data y = (fs(csv_path \<mapsto> ?t), Inr ?t)"
    by (rule update_csv_ok)
  have a: "add_derived_cols new_data =
      Inr \<lparr>columns = derived_columns (columns new_data), rows = map derive_row (rows new_data)\<rparr>"
    using cols by (rule add_derived_cols_rows)
  have v: "(fg3a + fg2a = 0
                \<longrightarrow> cellv r ''FTA_Rate'' = (if fta = 0 then NaN else if 0 < fta then PInf else NInf))
            \<and> ((fg3a + fg2a) + 0.44 * fta + tov - oreb = 0
                \<longrightarrow> cellv r ''TOV%'' = (if tov = 0 then NaN else if 0 < tov then PInf else NInf))"
    if r: "r \<in> set (rows ?t)"
      and c: "cellv r ''FG3A'' = Fin fg3a \<and> cellv r ''FG2A'' = Fin fg2a \<and> cellv r ''FTA'' = Fin fta
          \<and> cellv r ''Turnovers'' = Fin tov \<and> cellv r ''OffRebounds'' = Fin oreb"
    for r fg3a fg2a fta tov oreb
  proof -
    from r obtain r0 where r0: "r = derive_row r0" by auto
    from c have c0: "cellv r0 ''FG3A'' = Fin fg3a" "cellv r0 ''FG2A'' = Fin fg2a"
      "cellv r0 ''FTA'' = Fin fta" "cellv r0 ''Turnovers'' = Fin tov"
      "cellv r0 ''OffRebounds'' = Fin oreb"
      by (simp_all add: r0 cellv_derive_row_base)
    show ?thesis
      by (simp add: r0 fta_rate_def tov_pct_def fga_of_def fsub_def c0 zero_less_mult_iff)
  qed
  from u a v show ?thesis by (intro exI conjI) (simp, simp, assumption, blast)
qed

theorem zero_denominator_not_fatal_witness:
  "\<exists>fs' t.
      update_csv Map.empty ''data/season_totals.csv''
        (totals_frame 2026 (stats_row 0 0 0 3 3)) 2026 = (fs', Inr t)
    \<and> fs' ''data/season_totals.csv'' = Some t
    \<and> map (\<lambda>r. cellv r ''FTA_Rate'') (rows t) = [NaN]
    \<and> map (\<lambda>r. cellv r ''TOV%'') (rows t) = [PInf]"
proof -
  define p where "p = ''data/season_totals.csv''"
  define new_data where "new_data = totals_frame 2026 (stats_row 0 0 0 3 3)"
  define r0 where "r0 = \<lparr>year = 2026, vals = map_of (stats_row 0 0 0 3 3)\<rparr>"
  have cols: "set base_cols \<subseteq> set (columns new_data)"
    by (simp add: new_data_def totals_frame_def stats_row_def base_cols_def)
  from zero_denominator_not_fatal [OF cols, of Map.empty p 2026]
  obtain fs' t where u: "update_csv Map.empty p new_data 2026 = (fs', Inr t)"
    and f: "fs' p = Some t"
    and v: "\<forall>r\<in>set (rows t). \<forall>fg3a fg2a fta tov oreb.
          cellv r ''FG3A'' = Fin fg3a \<and> cellv r ''FG2A'' = Fin fg2a \<and> cellv r ''FTA'' = Fin fta
          \<and> cellv r ''Turnovers'' = Fin tov \<and> cellv r ''OffRebounds'' = Fin oreb
          \<longrightarrow> (fg3a + fg2a = 0
                \<longrightarrow> cellv r ''FTA_Rate'' = (if fta = 0 then NaN else if 0 < fta then PInf else NInf))
            \<and> ((fg3a + fg2a) + 0.44 * fta + tov - oreb = 0
                \<longrightarrow> cellv r ''TOV%'' = (if tov = 0 then NaN else if 0 < tov then PInf else NInf))"
    by blast
  have "rows t = map derive_row (merged_rows None new_data 2026)"
    using merge_rows_Inr(2) [OF update_csv_Inr(1) [OF u]] by simp
  also have "merged_rows None new_data 2026 = [r0]"
    by (simp add: merged_rows_def prior_rows_def new_data_def totals_frame_def stats_row_def
        sort_values_def r0_def)
  finally have rt: "rows t = [derive_row r0]" by simp
  have c: "cellv (derive_row r0) ''FG3A'' = Fin 0 \<and> cellv (derive_row r0) ''FG2A'' = Fin 0
      \<and> cellv (derive_row r0) ''FTA'' = Fin 0 \<and> cellv (derive_row r0) ''Turnovers'' = Fin 3
      \<and> cellv (derive_row r0) ''OffRebounds'' = Fin 3"
    by (simp add: cellv_derive_row_base) (simp add: r0_def stats_row_def cellv_def)
  from v rt have "\<forall>fg3a fg2a fta tov oreb.
          cellv (derive_row r0) ''FG3A'' = Fin fg3a \<and> cellv (derive_row r0) ''FG2A'' = Fin fg2a
          \<and> cellv (derive_row r0) ''FTA'' = Fin fta
          \<and> cellv (derive_row r0) ''Turnovers'' = Fin tov
          \<and> cellv (derive_row r0) ''OffRebounds'' = Fin oreb
          \<longrightarrow> (fg3a + fg2a = 0
                \<longrightarrow> cellv (derive_row r0) ''FTA_Rate''
                    = (if fta = 0 then NaN else if 0 < fta then PInf else NInf))
            \<and> ((fg3a + fg2a) + 0.44 * fta + tov - oreb = 0
                \<longrightarrow> cellv (derive_row r0) ''TOV%''
                    = (if tov = 0 then NaN else if 0 < tov then PInf else NInf))"
    by simp
  from this [rule_format, OF c]
  have "cellv (derive_row r0) ''FTA_Rate'' = NaN \<and> cellv (derive_row r0) ''TOV%'' = PInf"
    by simp
  with u f rt show ?thesis unfolding p_def new_data_def
    by (intro exI [of _ fs'] exI [of _ t]) simp
qed

section \<open>Fetching: claims\<close>

text \<open>
  C6 (retry ceiling). A unit of a block sends at most \<open>MAX_RETRIES\<close> requests; when it ends
  in success the recorded \<open>attempts\<close> is below the ceiling and one request more was sent
  than attempts failed; when it ends in failure \<open>attempts\<close> and the number of requests both
  equal \<open>MAX_RETRIES\<close>. \<open>fetch_totals\<close> sends between one and \<open>max_retries\<close> requests and,
  when it gives up (the empty table), exactly \<open>max_retries\<close>.
\<close>

theorem retry_ceiling:
  assumes unit: "retry_loop net team_id season opp leverage 0 w = (w', attempts, res)"
      and totals: "fetch_totals net2 y season_type leverage2 v = (v', res2)"
  shows "length (sent w') - length (sent w) \<le> MAX_RETRIES \<and> attempts \<le> MAX_RETRIES
     \<and> (res \<noteq> None \<longrightarrow> length (sent w') - length (sent w) = attempts + 1)
     \<and> (res = None \<longrightarrow> attempts = MAX_RETRIES
                         \<and> length (sent w') - length (sent w) = MAX_RETRIES)
     \<and> (\<exists>df. res2 = Some df
           \<and> 1 \<le> length (sent v') - length (sent v)
           \<and> length (sent v') - length (sent v) \<le> max_retries
           \<and> (df_empty df \<longrightarrow> length (sent v') - length (sent v) = max_retries))"
proof -
  from retry_loop_count [OF unit]
  have a: "length (sent w') - length (sent w) \<le> MAX_RETRIES \<and> attempts \<le> MAX_RETRIES
     \<and> (res \<noteq> None \<longrightarrow> length (sent w') - length (sent w) = attempts + 1)
     \<and> (res = None \<longrightarrow> attempts = MAX_RETRIES
                         \<and> length (sent w') - length (sent w) = MAX_RETRIES)"
    by (cases res) auto
  from totals have "fetch_loop net2 y (totals_params y season_type leverage2) 1 v = (v', res2)"
    by (simp add: fetch_totals_def)
  from fetch_loop_count [OF this]
  have b: "\<exists>df. res2 = Some df
           \<and> 1 \<le> length (sent v') - length (sent v)
           \<and> length (sent v') - length (sent v) \<le> max_retries
           \<and> (df_empty df \<longrightarrow> length (sent v') - length (sent v) = max_retries)"
    by (auto simp: max_retries_def)
  from a b show ?thesis by blast
qed

theorem retry_ceiling_witness:
  "\<exists>w' v'.
     retry_loop (\<lambda>n. if n < 2 then NoResponse else wowy_ok (lineups 3)) 7 ''2025-26'' False False 0
        (world0 :: table world) = (w', 2, Some (table_of_rows (lineups 3)))
   \<and> fetch_totals (\<lambda>n. NoResponse) 2026 ''Playoffs'' True (world0 :: frame world)
        = (v', Some empty_frame)
   \<and> length (sent w') = 3 \<and> length (sent v') = 15
   \<and> length (sent w') \<le> MAX_RETRIES \<and> length (sent v') = max_retries"
proof -
  define net where "net = (\<lambda>n::nat. if n < 2 then NoResponse else wowy_ok (lineups 3))"
  obtain w' where u: "retry_loop net 7 ''2025-26'' False False 0 (world0 :: table world)
      = (w', 2, Some (table_of_rows (lineups 3)))"
    by (simp add: retry_loop.simps lineuppull_def requests_get_def MAX_RETRIES_def net_def
        world0_def wowy_ok_def sleep_def)
  obtain v' where t: "fetch_totals (\<lambda>n. NoResponse) 2026 ''Playoffs'' True (world0 :: frame world)
      = (v', Some empty_frame)"
    by (simp add: fetch_totals_def fetch_loop.simps totals_try_def requests_get_def
        max_retries_def world0_def sleep_def)
  from retry_ceiling [OF u t]
  have "length (sent w') = 3 \<and> length (sent v') = 15
     \<and> length (sent w') \<le> MAX_RETRIES \<and> length (sent v') = max_retries"
    by (simp add: world0_def df_empty_def empty_frame_def max_retries_def MAX_RETRIES_def)
  with u t show ?thesis unfolding net_def by blast
qed

text \<open>
  C7 (non-2xx responses). \<open>lineuppull\<close> calls \<open>raise_for_status\<close>, so a response with status
  500 is a failed attempt there. \<open>fetch_totals\<close> never looks at the status: a response
  with status 500 whose body holds the row is returned as a successful fetch, after one
  request.
\<close>

theorem fetch_totals_accepts_status_500:
  "fetch_totals (\<lambda>n. totals_ok 500 (stats_row 10 20 15 12 8)) 2026 ''Regular Season'' False
       (world0 :: frame world)
     = (\<lparr>files = Map.empty,
         sent = [Get totals_url (totals_params 2026 ''Regular Season'' False)],
         slept = [2]\<rparr>,
        Some (totals_frame 2026 (stats_row 10 20 15 12 8)))
   \<and> snd (lineuppull (\<lambda>n. Response 500 (Object [(''multi_row_table_data'', Table (lineups 3))]))
            7 ''2025-26'' False False (world0 :: table world))
     = Inl (HTTPError 500)"
  by (simp add: fetch_totals_def fetch_loop.simps totals_try_def requests_get_def
      max_retries_def world0_def sleep_def totals_ok_def lineuppull_def)

text \<open>
  C8 (pacing after every unit). In a block over the single team 7 in which the first five
  requests fail and the later ones succeed, the unit (7, Team) fails for good and the unit
  (7, Opponent) succeeds. The sleeps of the block are the four retry delays of the failed
  unit and one pacing delay, after the unit that succeeded: no pacing delay follows the
  failed unit, whose last failed request is followed at once by the first request of the
  next unit.
\<close>

theorem failed_unit_skips_pacing:
  "slept (bworld (pull_block (\<lambda>n. if n < 5 then NoResponse else wowy_ok (lineups 3))
                    [7] 2026 False world0))
     = [RETRY_DELAY, RETRY_DELAY, RETRY_DELAY, RETRY_DELAY, SLEEP_BETWEEN]
   \<and> fail_list (pull_block (\<lambda>n. if n < 5 then NoResponse else wowy_ok (lineups 3))
                    [7] 2026 False world0)
     = [(7, ''Team'')]
   \<and> length (vs_frames (pull_block (\<lambda>n. if n < 5 then NoResponse else wowy_ok (lineups 3))
                    [7] 2026 False world0)) = 1
   \<and> length (sent (bworld (pull_block (\<lambda>n. if n < 5 then NoResponse else wowy_ok (lineups 3))
                    [7] 2026 False world0))) = 6"
proof -
  define b where
    "b = pull_block (\<lambda>n. if n < 5 then NoResponse else wowy_ok (lineups 3)) [7] 2026 False world0"
  have "\<exists>F S T V. b = \<lparr>bworld = \<lparr>files = F, sent = S,
                  slept = [RETRY_DELAY, RETRY_DELAY, RETRY_DELAY, RETRY_DELAY, SLEEP_BETWEEN]\<rparr>,
                team_frames = T, vs_frames = V, fail_list = [(7, ''Team'')]\<rparr>
          \<and> length S = 6 \<and> length V = 1"
    unfolding b_def
    by (simp add: pull_block_def pull_unit_def retry_loop.simps lineuppull_def requests_get_def
        MAX_RETRIES_def world0_def wowy_ok_def sleep_def Let_def)
  then have "slept (bworld b)
       = [RETRY_DELAY, RETRY_DELAY, RETRY_DELAY, RETRY_DELAY, SLEEP_BETWEEN]
     \<and> fail_list b = [(7, ''Team'')] \<and> length (vs_frames b) = 1 \<and> length (sent (bworld b)) = 6"
    by auto
  then show ?thesis unfolding b_def .
qed

section \<open>The season-totals run: claims\<close>

text \<open>
  C10 (a failed fetch leaves the file alone). \<open>fetch_totals\<close> always returns a table, never
  an exception and never nothing, and does not touch the files; when none of the next
  \<open>max_retries\<close> responses is usable it returns the empty table. When it returns an empty
  table, the block of \<open>main\<close> that called it ends without calling \<open>update_csv\<close>, in the
  world the fetch left. So in a run of \<open>main\<close>, the file of a dataset whose fetch came
  back empty is at the end what it was at the start.
\<close>

theorem fetch_failure_leaves_file:
  "(\<exists>w' df. fetch_totals net y season_type leverage w = (w', Some df) \<and> files w' = files w)
   \<and> ((\<forall>i<max_retries. \<not> usable_totals (net (length (sent w) + i)))
        \<longrightarrow> snd (fetch_totals net y season_type leverage w) = Some empty_frame)
   \<and> (\<forall>w1 df. fetch_totals net y season_type leverage w = (w1, Some df) \<and> df_empty df
        \<longrightarrow> sync_totals net y season_type leverage csv_path w = (w1, None)
            \<and> files w1 = files w)
   \<and> (\<forall>k st lv p vk vk' df.
         k < length datasets \<and> datasets ! k = (st, lv, p)
         \<and> run_datasets net y (take k datasets) v = (vk, None)
         \<and> fetch_totals net y st lv vk = (vk', Some df) \<and> df_empty df
        \<longrightarrow> files (fst (season_totals_main net y v)) p = files v p)"
proof (intro conjI allI impI)
  show "\<exists>w' df. fetch_totals net y season_type leverage w = (w', Some df) \<and> files w' = files w"
    by (rule fetch_totals_total)
next
  assume "\<forall>i<max_retries. \<not> usable_totals (net (length (sent w) + i))"
  then show "snd (fetch_totals net y season_type leverage w) = Some empty_frame"
    unfolding fetch_totals_def
    by (intro fetch_loop_unusable) (simp_all add: max_retries_def)
next
  fix w1 df
  assume a: "fetch_totals net y season_type leverage w = (w1, Some df) \<and> df_empty df"
  then show "sync_totals net y season_type leverage csv_path w = (w1, None)"
    by (simp add: sync_totals_skips)
  from a fetch_totals_total [of net y season_type leverage w]
  show "files w1 = files w" by auto
next
  fix k st lv p vk vk' df
  assume a: "k < length datasets \<and> datasets ! k = (st, lv, p)
         \<and> run_datasets net y (take k datasets) v = (vk, None)
         \<and> fetch_totals net y st lv vk = (vk', Some df) \<and> df_empty df"
  let ?pre = "take k datasets" and ?post = "drop (Suc k) datasets"
  from a have split: "datasets = ?pre @ (st, lv, p) # ?post"
    by (metis id_take_nth_drop)
  have "distinct (map (\<lambda>d. snd (snd d)) (?pre @ (st, lv, p) # ?post))"
    using distinct_dataset_paths split by simp
  then have np: "p \<notin> set (map (\<lambda>d. snd (snd d)) ?pre)"
    and nq: "p \<notin> set (map (\<lambda>d. snd (snd d)) ?post)"
    by auto
  from a have s: "sync_totals net y st lv p vk = (vk', None)"
    by (simp add: sync_totals_skips)
  from a fetch_totals_total [of net y st lv vk] have fw: "files vk' = files vk" by auto
  have "season_totals_main net y v = run_datasets net y (?pre @ (st, lv, p) # ?post) v"
    using split by (simp add: season_totals_main_run)
  also have "\<dots> = run_datasets net y ?post vk'"
    using a s by (simp add: run_datasets_append)
  finally have "files (fst (season_totals_main net y v)) p = files vk' p"
    using run_datasets_other_files [OF nq, of net y vk'] by simp
  also have "\<dots> = files (fst (run_datasets net y ?pre v)) p"
    using a fw by simp
  also have "\<dots> = files v p"
    by (rule run_datasets_other_files [OF np])
  finally show "files (fst (season_totals_main net y v)) p = files v p" .
qed

theorem fetch_failure_leaves_file_witness:
  "snd (fetch_totals (\<lambda>n. if n < 15 then NoResponse else totals_ok 200 (stats_row 10 20 15 12 8))
          2026 ''Regular Season'' False
          (world0\<lparr>files := [''data/season_totals.csv'' \<mapsto> unsorted_table]\<rparr>))
     = Some empty_frame
   \<and> files (fst (season_totals_main
          (\<lambda>n. if n < 15 then NoResponse else totals_ok 200 (stats_row 10 20 15 12 8)) 2026
          (world0\<lparr>files := [''data/season_totals.csv'' \<mapsto> unsorted_table]\<rparr>)))
        ''data/season_totals.csv''
     = Some unsorted_table"
proof -
  define net where
    "net = (\<lambda>n::nat. if n < 15 then NoResponse else totals_ok 200 (stats_row 10 20 15 12 8))"
  define v :: "frame world" where
    "v = world0\<lparr>files := [''data/season_totals.csv'' \<mapsto> unsorted_table]\<rparr>"
  note inst = fetch_failure_leaves_file
    [of net 2026 "''Regular Season''" False v "''data/season_totals.csv''" v]
  have unusable: "\<forall>i<max_retries. \<not> usable_totals (net (length (sent v) + i))"
    by (simp add: net_def max_retries_def usable_totals_def v_def world0_def)
  with inst have e: "snd (fetch_totals net 2026 ''Regular Season'' False v) = Some empty_frame"
    by blast
  then obtain v' where f: "fetch_totals net 2026 ''Regular Season'' False v = (v', Some empty_frame)"
    by (cases "fetch_totals net 2026 ''Regular Season'' False v") auto
  have k: "0 < length datasets \<and> datasets ! 0 = (''Regular Season'', False, ''data/season_totals.csv'')
      \<and> run_datasets net 2026 (take 0 datasets) v = (v, None)
      \<and> fetch_totals net 2026 ''Regular Season'' False v = (v', Some empty_frame)
      \<and> df_empty empty_frame"
    using f by (simp add: datasets_def df_empty_def empty_frame_def)
  from inst have "\<forall>k st lv p vk vk' df.
         k < length datasets \<and> datasets ! k = (st, lv, p)
         \<and> run_datasets net 2026 (take k datasets) v = (vk, None)
         \<and> fetch_totals net 2026 st lv vk = (vk', Some df) \<and> df_empty df
        \<longrightarrow> files (fst (season_totals_main net 2026 v)) p = files v p"
    by blast
  from this [rule_format, OF k]
  have kept: "files (fst (season_totals_main net 2026 v)) ''data/season_totals.csv''
      = Some unsorted_table"
    by (simp add: v_def)
  from e kept show ?thesis unfolding net_def v_def by blast
qed

section \<open>The on-off run: claims\<close>




end
